theory Spec2Isabelle
  imports Main "HOL-Library.Word"
begin

section \<open>The AST node taxonomy of \<open>ASTNode.h\<close>\<close>

text \<open>
  The header \<open>include/revng-c/RestructureCFG/ASTNode.h\<close> declares a base class
  \<open>ASTNode\<close> and nine subclasses. Nodes refer to each other through raw
  pointers, so the embedding keeps pointers: an address is a natural number and
  \<open>nullptr\<close> is \<open>None\<close>. Pointers into other address spaces
  (\<open>llvm::BasicBlock *\<close>, \<open>llvm::Value *\<close>, \<open>ExprNode *\<close>) are kept
  opaque in the same way.
\<close>

type_synonym addr = nat
type_synonym ptr = "addr option"
type_synonym bbptr = "nat option"
type_synonym valptr = "nat option"
type_synonym exprptr = "nat option"

datatype NodeKind =
  NK_Code | NK_Break | NK_Continue | NK_If | NK_Scs | NK_List | NK_Switch
| NK_SwitchBreak | NK_Set

datatype DispatcherKind = DK_NotADispatcher | DK_Entry | DK_Exit

text \<open>\<open>ScsNode::Type\<close>.\<close>

datatype Type = WhileTrue | While | DoWhile

text \<open>
  How a call can fail. \<open>revng_assert\<close> and \<open>revng_abort\<close> terminate the process,
  \<open>std::map::at\<close> throws \<open>std::out_of_range\<close> (never caught in the header),
  \<open>llvm::cast\<close> asserts the dynamic kind, and following a null or dangling pointer
  is undefined behaviour, which the model reports as an error of its own.
\<close>

datatype error =
  AssertionFailure
| Abort string
| OutOfRange
| CastFailure
| InvalidPointer

subsection \<open>The members each subclass adds\<close>

record CodeNode =
  ImplicitReturn :: bool

record BreakNode =
  BreakFromWithinSwitch :: bool

record ContinueNode =
  ComputationIf :: ptr
  IsImplicit :: bool

record IfNode =
  Then :: ptr
  Else :: ptr
  ConditionExpression :: exprptr
  IsWeaved :: bool

record ScsNode =
  Body :: ptr
  LoopType :: Type
  RelatedCondition :: ptr

record SequenceNode =
  NodeVec :: "ptr list"

record SetNode =
  StateVariableValue :: "32 word"
  DKind :: DispatcherKind

text \<open>
  \<open>label_set_t\<close> is \<open>llvm::SmallSet<uint64_t, 1>\<close> and a case is a pair of a label
  set and a child pointer. \<open>SwitchNode\<close> repeats the member names \<open>IsWeaved\<close>
  and \<open>DKind\<close>; they are written qualified below.
\<close>

type_synonym label_set_t = "64 word set"
type_synonym labeled_case_t = "label_set_t \<times> ptr"

record SwitchNode =
  Condition :: valptr
  LabelCaseVec :: "labeled_case_t list"
  IsWeaved :: bool
  NeedStateVariable :: bool
  NeedLoopBreakDispatcher :: bool
  DKind :: DispatcherKind

record SwitchBreakNode =
  ParentSwitch :: ptr

datatype NodeData =
  CodeData CodeNode
| BreakData BreakNode
| ContinueData ContinueNode
| IfData IfNode
| ScsData ScsNode
| SequenceData SequenceNode
| SwitchData SwitchNode
| SwitchBreakData SwitchBreakNode
| SetData SetNode

subsection \<open>The base class\<close>

text \<open>
  The members of \<open>ASTNode\<close>, with the subclass part in \<open>Data\<close>. The constant
  member \<open>Kind\<close> is fixed by the constructor of each subclass, so it is read off
  the subclass part.
\<close>

record ASTNode =
  BB :: bbptr
  Name :: string
  Successor :: ptr
  ID :: "32 word"
  Data :: NodeData

fun kindOf :: "NodeData \<Rightarrow> NodeKind" where
  "kindOf (CodeData _) = NK_Code"
| "kindOf (BreakData _) = NK_Break"
| "kindOf (ContinueData _) = NK_Continue"
| "kindOf (IfData _) = NK_If"
| "kindOf (ScsData _) = NK_Scs"
| "kindOf (SequenceData _) = NK_List"
| "kindOf (SwitchData _) = NK_Switch"
| "kindOf (SwitchBreakData _) = NK_SwitchBreak"
| "kindOf (SetData _) = NK_Set"

definition getKind :: "ASTNode \<Rightarrow> NodeKind" where
  "getKind n = kindOf (Data n)"

definition setID :: "ASTNode \<Rightarrow> 32 word \<Rightarrow> ASTNode" where
  "setID n NewID = n\<lparr>ID := NewID\<rparr>"

definition getID :: "ASTNode \<Rightarrow> 32 word" where
  "getID n = ID n"

definition getBB :: "ASTNode \<Rightarrow> bbptr" where
  "getBB n = BB n"

definition getSuccessor :: "ASTNode \<Rightarrow> ptr" where
  "getSuccessor n = Successor n"

text \<open>
  \<open>consumeSuccessor\<close> returns the old successor and leaves the node with a null one:
  the result is the returned pointer and the node after the call.
\<close>

definition consumeSuccessor :: "ASTNode \<Rightarrow> ptr \<times> ASTNode" where
  "consumeSuccessor n =
     (let SuccessorTmp = Successor n in (SuccessorTmp, n\<lparr>Successor := None\<rparr>))"

definition isDummy :: "ASTNode \<Rightarrow> bool" where
  "isDummy n \<longleftrightarrow> getKind n = NK_Code \<and> BB n = None"

subsection \<open>\<open>ScsNode\<close>\<close>

text \<open>The constructor leaves the loop a \<open>WhileTrue\<close> with no related condition.\<close>

definition ScsNode_new :: "ptr \<Rightarrow> ScsNode" where
  "ScsNode_new body = \<lparr>Body = body, LoopType = WhileTrue, RelatedCondition = None\<rparr>"

definition isWhileTrue :: "ScsNode \<Rightarrow> bool" where
  "isWhileTrue s \<longleftrightarrow> LoopType s = WhileTrue"

definition isWhile :: "ScsNode \<Rightarrow> bool" where
  "isWhile s \<longleftrightarrow> LoopType s = While"

definition isDoWhile :: "ScsNode \<Rightarrow> bool" where
  "isDoWhile s \<longleftrightarrow> LoopType s = DoWhile"

definition setWhile :: "ScsNode \<Rightarrow> ptr \<Rightarrow> error + ScsNode" where
  "setWhile s c =
     (if LoopType s = WhileTrue
      then Inr (s\<lparr>LoopType := While, RelatedCondition := c\<rparr>)
      else Inl AssertionFailure)"

definition setDoWhile :: "ScsNode \<Rightarrow> ptr \<Rightarrow> error + ScsNode" where
  "setDoWhile s c =
     (if LoopType s = WhileTrue
      then Inr (s\<lparr>LoopType := DoWhile, RelatedCondition := c\<rparr>)
      else Inl AssertionFailure)"

definition getRelatedCondition :: "ScsNode \<Rightarrow> error + ptr" where
  "getRelatedCondition s =
     (if \<not> (LoopType s = While \<or> LoopType s = DoWhile) then Inl AssertionFailure
      else if RelatedCondition s = None then Inl AssertionFailure
      else Inr (RelatedCondition s))"

text \<open>
  The data-model invariant of the loop node: a \<open>While\<close> or \<open>DoWhile\<close> loop has a
  related condition.
\<close>

definition hasRelatedCondition :: "ScsNode \<Rightarrow> bool" where
  "hasRelatedCondition s \<longleftrightarrow> LoopType s = WhileTrue \<or> RelatedCondition s \<noteq> None"

subsection \<open>\<open>SwitchNode\<close>: the default case\<close>

text \<open>
  \<open>getDefault\<close> scans every case; \<open>Default\<close> is the loop's local variable. An empty
  label set found while \<open>Default\<close> is already non-null fails the assertion.
\<close>

fun getDefault_loop :: "labeled_case_t list \<Rightarrow> ptr \<Rightarrow> error + ptr" where
  "getDefault_loop [] Default = Inr Default"
| "getDefault_loop ((LabelSet, Successor') # rest) Default =
     (if LabelSet = {}
      then (if Default = None then getDefault_loop rest Successor'
            else Inl AssertionFailure)
      else getDefault_loop rest Default)"

definition getDefault :: "SwitchNode \<Rightarrow> error + ptr" where
  "getDefault s = getDefault_loop (LabelCaseVec s) None"

definition hasDefault :: "SwitchNode \<Rightarrow> error + bool" where
  "hasDefault s = (case getDefault s of Inl e \<Rightarrow> Inl e | Inr d \<Rightarrow> Inr (None \<noteq> d))"

definition removeCaseN :: "SwitchNode \<Rightarrow> nat \<Rightarrow> error + SwitchNode" where
  "removeCaseN s N =
     (if N < length (LabelCaseVec s)
      then Inr (s\<lparr>LabelCaseVec := take N (LabelCaseVec s) @ drop (Suc N) (LabelCaseVec s)\<rparr>)
      else Inl AssertionFailure)"

text \<open>
  \<open>removeDefault\<close> enumerates the cases with their index and erases the first one
  whose label set is empty, then returns.
\<close>

fun removeDefault_loop :: "SwitchNode \<Rightarrow> nat \<Rightarrow> labeled_case_t list \<Rightarrow> error + SwitchNode" where
  "removeDefault_loop s Index [] = Inr s"
| "removeDefault_loop s Index ((LabelSet, Successor') # rest) =
     (if LabelSet = {} then removeCaseN s Index
      else removeDefault_loop s (Suc Index) rest)"

definition removeDefault :: "SwitchNode \<Rightarrow> error + SwitchNode" where
  "removeDefault s = removeDefault_loop s 0 (LabelCaseVec s)"

text \<open>The cases whose label set is empty, and the at-most-one-default invariant.\<close>

definition isDefaultCase :: "labeled_case_t \<Rightarrow> bool" where
  "isDefaultCase c \<longleftrightarrow> fst c = {}"

definition defaultCases :: "SwitchNode \<Rightarrow> labeled_case_t list" where
  "defaultCases s = filter isDefaultCase (LabelCaseVec s)"

definition atMostOneDefault :: "SwitchNode \<Rightarrow> bool" where
  "atMostOneDefault s \<longleftrightarrow> length (defaultCases s) \<le> 1"

subsection \<open>Construction from a CFG node\<close>

text \<open>
  Modelled from the spec: the class \<open>BasicBlockNodeBB\<close> (header
  \<open>BasicBlockNodeBB.h\<close>) is not among the sources. Its \<open>Type\<close> enumeration is
  taken from the vertex kinds of the spec's data model (section 3.1), which include
  the four enumerators the header names; the record holds what the getters called
  by the constructors return.
\<close>

datatype BasicBlockNode_Type =
  Code | Empty | EntryDispatcher | ExitDispatcher | EntrySet | ExitSet | Collapsed | Tile

record BasicBlockNodeBB =
  isCode :: bool
  getOriginalNode :: bbptr
  getNameStr :: string
  getStateVariableValue :: "32 word"
  getDispatcherType :: BasicBlockNode_Type
  isWeaved :: bool
  isDispatcher :: bool

text \<open>
  The public base constructor \<open>ASTNode(K, CFGNode, Successor)\<close>; \<open>ID\<close> keeps its
  default member initialiser 0.
\<close>

definition ASTNode_ctor :: "NodeData \<Rightarrow> BasicBlockNodeBB \<Rightarrow> ptr \<Rightarrow> ASTNode" where
  "ASTNode_ctor d CFGNode Successor' =
     \<lparr>BB = (if isCode CFGNode then getOriginalNode CFGNode else None),
      Name = getNameStr CFGNode,
      Successor = Successor',
      ID = 0,
      Data = d\<rparr>"

text \<open>
  \<open>SetNode::SetNode\<close>: the dispatcher kind follows the type of the CFG node, and any
  type other than \<open>EntrySet\<close> and \<open>ExitSet\<close> aborts inside the constructor.
\<close>

definition SetNode_ctor :: "BasicBlockNodeBB \<Rightarrow> ptr \<Rightarrow> error + ASTNode" where
  "SetNode_ctor CFGNode Successor' =
     (let CFGNodeType = getDispatcherType CFGNode in
      if CFGNodeType = EntrySet then
        Inr (ASTNode_ctor
               (SetData \<lparr>StateVariableValue = getStateVariableValue CFGNode,
                         SetNode.DKind = DK_Entry\<rparr>) CFGNode Successor')
      else if CFGNodeType = ExitSet then
        Inr (ASTNode_ctor
               (SetData \<lparr>StateVariableValue = getStateVariableValue CFGNode,
                         SetNode.DKind = DK_Exit\<rparr>) CFGNode Successor')
      else Inl (Abort ''Unexpected DispatcherKind''))"

text \<open>
  \<open>SwitchNode::SwitchNode\<close>: the case container is moved into \<open>LabelCaseVec\<close> as
  it is, without a look at the label sets. The two flags have the default member
  initialiser \<open>false\<close>. \<open>DKind\<close> has none and is assigned only for a dispatcher,
  so for any other CFG node it keeps whatever the storage held, which is the last
  parameter of the model. A dispatcher whose type is neither \<open>EntryDispatcher\<close>
  nor \<open>ExitDispatcher\<close> aborts.
\<close>

definition SwitchNode_ctor ::
    "BasicBlockNodeBB \<Rightarrow> valptr \<Rightarrow> labeled_case_t list \<Rightarrow> ptr \<Rightarrow> DispatcherKind
       \<Rightarrow> error + ASTNode" where
  "SwitchNode_ctor CFGNode Cond LabeledCases Successor' Indeterminate =
     (let s = \<lparr>Condition = Cond, LabelCaseVec = LabeledCases,
                SwitchNode.IsWeaved = isWeaved CFGNode, NeedStateVariable = False,
                NeedLoopBreakDispatcher = False, SwitchNode.DKind = Indeterminate\<rparr>
      in if isDispatcher CFGNode then
           (let CFGNodeType = getDispatcherType CFGNode in
            if CFGNodeType = EntryDispatcher then
              Inr (ASTNode_ctor (SwitchData (s\<lparr>SwitchNode.DKind := DK_Entry\<rparr>))
                     CFGNode Successor')
            else if CFGNodeType = ExitDispatcher then
              Inr (ASTNode_ctor (SwitchData (s\<lparr>SwitchNode.DKind := DK_Exit\<rparr>))
                     CFGNode Successor')
            else Inl (Abort ''Unexpected DispatcherKind''))
         else Inr (ASTNode_ctor (SwitchData s) CFGNode Successor'))"

subsection \<open>Redirecting pointers through a substitution map\<close>

text \<open>
  \<open>ASTNodeMap\<close> is \<open>std::map<ASTNode *, ASTNode *>\<close>. \<open>map_at\<close> is its member
  \<open>at\<close>, which throws on a missing key.
\<close>

type_synonym ASTNodeMap = "addr \<rightharpoonup> ptr"

definition map_at :: "ASTNodeMap \<Rightarrow> addr \<Rightarrow> error + ptr" where
  "map_at M k = (case M k of None \<Rightarrow> Inl OutOfRange | Some v \<Rightarrow> Inr v)"

text \<open>
  The statement \<open>if (P) P = SubstitutionMap.at(P);\<close> that the base method applies to
  \<open>Successor\<close>: a null pointer stays null, any other is looked up.
\<close>

definition redirect :: "ASTNodeMap \<Rightarrow> ptr \<Rightarrow> error + ptr" where
  "redirect M p = (case p of None \<Rightarrow> Inr None | Some a \<Rightarrow> map_at M a)"

fun redirect_all :: "ASTNodeMap \<Rightarrow> ptr list \<Rightarrow> error + ptr list" where
  "redirect_all M [] = Inr []"
| "redirect_all M (p # ps) =
     (case redirect M p of
        Inl e \<Rightarrow> Inl e
      | Inr q \<Rightarrow> (case redirect_all M ps of Inl e \<Rightarrow> Inl e | Inr qs \<Rightarrow> Inr (q # qs)))"

fun redirect_cases :: "ASTNodeMap \<Rightarrow> labeled_case_t list \<Rightarrow> error + labeled_case_t list" where
  "redirect_cases M [] = Inr []"
| "redirect_cases M ((LabelSet, Child) # cs) =
     (case redirect M Child of
        Inl e \<Rightarrow> Inl e
      | Inr q \<Rightarrow>
          (case redirect_cases M cs of
             Inl e \<Rightarrow> Inl e
           | Inr qs \<Rightarrow> Inr ((LabelSet, q) # qs)))"

text \<open>
  Modelled from the spec: the subclass methods \<open>IfNode::updateASTNodesPointers\<close>,
  \<open>ScsNode::updateASTNodesPointers\<close>, \<open>SequenceNode::updateASTNodesPointers\<close>,
  \<open>SwitchNode::updateASTNodesPointers\<close> and
  \<open>SwitchBreakNode::updateASTNodesPointers\<close> are declared in the header and defined
  in \<open>ASTNode.cpp\<close>, which is not among the sources. The spec (section 4.4) says
  which references they redirect through the map: \<open>If.then/else\<close>, \<open>Scs.body\<close>,
  \<open>Sequence.children\<close>, \<open>Switch.cases[i].child\<close> and
  \<open>SwitchBreak.parent_switch\<close>; an unresolved lookup is fatal (section 7). Null
  references are left null, as the base method leaves a null successor.
\<close>

definition IfNode_updateASTNodesPointers :: "ASTNodeMap \<Rightarrow> IfNode \<Rightarrow> error + IfNode" where
  "IfNode_updateASTNodesPointers M i =
     (case redirect M (Then i) of
        Inl e \<Rightarrow> Inl e
      | Inr t \<Rightarrow>
          (case redirect M (Else i) of
             Inl e \<Rightarrow> Inl e
           | Inr el \<Rightarrow> Inr (i\<lparr>Then := t, Else := el\<rparr>)))"

definition ScsNode_updateASTNodesPointers :: "ASTNodeMap \<Rightarrow> ScsNode \<Rightarrow> error + ScsNode" where
  "ScsNode_updateASTNodesPointers M s =
     (case redirect M (Body s) of
        Inl e \<Rightarrow> Inl e
      | Inr b \<Rightarrow> Inr (s\<lparr>Body := b\<rparr>))"

definition SequenceNode_updateASTNodesPointers ::
    "ASTNodeMap \<Rightarrow> SequenceNode \<Rightarrow> error + SequenceNode" where
  "SequenceNode_updateASTNodesPointers M s =
     (case redirect_all M (NodeVec s) of
        Inl e \<Rightarrow> Inl e
      | Inr v \<Rightarrow> Inr (s\<lparr>NodeVec := v\<rparr>))"

definition SwitchNode_updateASTNodesPointers ::
    "ASTNodeMap \<Rightarrow> SwitchNode \<Rightarrow> error + SwitchNode" where
  "SwitchNode_updateASTNodesPointers M s =
     (case redirect_cases M (LabelCaseVec s) of
        Inl e \<Rightarrow> Inl e
      | Inr cs \<Rightarrow> Inr (s\<lparr>LabelCaseVec := cs\<rparr>))"

definition SwitchBreakNode_updateASTNodesPointers ::
    "ASTNodeMap \<Rightarrow> SwitchBreakNode \<Rightarrow> error + SwitchBreakNode" where
  "SwitchBreakNode_updateASTNodesPointers M s =
     (case redirect M (ParentSwitch s) of
        Inl e \<Rightarrow> Inl e
      | Inr p \<Rightarrow> Inr (s\<lparr>ParentSwitch := p\<rparr>))"

definition hasComputation :: "ContinueNode \<Rightarrow> bool" where
  "hasComputation c \<longleftrightarrow> ComputationIf c \<noteq> None"

text \<open>
  The values of the enumerators of \<open>NodeKind\<close>, in declaration order. The
  \<open>switch (getKind())\<close> of \<open>ASTNode::updateASTNodesPointers\<close> has a \<open>default\<close>
  label, so the dispatch is written over the value the \<open>switch\<close> reads: a value that
  is no enumerator's reaches \<open>revng_abort\<close>. \<open>llvm::cast\<close> to the subclass fails when
  the node is not of that subclass.
\<close>

fun NodeKind_value :: "NodeKind \<Rightarrow> nat" where
  "NodeKind_value NK_Code = 0"
| "NodeKind_value NK_Break = 1"
| "NodeKind_value NK_Continue = 2"
| "NodeKind_value NK_If = 3"
| "NodeKind_value NK_Scs = 4"
| "NodeKind_value NK_List = 5"
| "NodeKind_value NK_Switch = 6"
| "NodeKind_value NK_SwitchBreak = 7"
| "NodeKind_value NK_Set = 8"

definition updateASTNodesPointers_switch :: "nat \<Rightarrow> ASTNodeMap \<Rightarrow> ASTNode \<Rightarrow> error + ASTNode" where
  "updateASTNodesPointers_switch K M n =
     (if K = NodeKind_value NK_If then
        (case Data n of
           IfData i \<Rightarrow>
             (case IfNode_updateASTNodesPointers M i of
                Inl e \<Rightarrow> Inl e
              | Inr i' \<Rightarrow> Inr (n\<lparr>Data := IfData i'\<rparr>))
         | _ \<Rightarrow> Inl CastFailure)
      else if K = NodeKind_value NK_Switch then
        (case Data n of
           SwitchData s \<Rightarrow>
             (case SwitchNode_updateASTNodesPointers M s of
                Inl e \<Rightarrow> Inl e
              | Inr s' \<Rightarrow> Inr (n\<lparr>Data := SwitchData s'\<rparr>))
         | _ \<Rightarrow> Inl CastFailure)
      else if K = NodeKind_value NK_Scs then
        (case Data n of
           ScsData s \<Rightarrow>
             (case ScsNode_updateASTNodesPointers M s of
                Inl e \<Rightarrow> Inl e
              | Inr s' \<Rightarrow> Inr (n\<lparr>Data := ScsData s'\<rparr>))
         | _ \<Rightarrow> Inl CastFailure)
      else if K = NodeKind_value NK_Continue then
        (case Data n of
           ContinueData c \<Rightarrow> (if \<not> hasComputation c then Inr n else Inl AssertionFailure)
         | _ \<Rightarrow> Inl CastFailure)
      else if K = NodeKind_value NK_SwitchBreak then
        (case Data n of
           SwitchBreakData s \<Rightarrow>
             (case SwitchBreakNode_updateASTNodesPointers M s of
                Inl e \<Rightarrow> Inl e
              | Inr s' \<Rightarrow> Inr (n\<lparr>Data := SwitchBreakData s'\<rparr>))
         | _ \<Rightarrow> Inl CastFailure)
      else if K = NodeKind_value NK_Code \<or> K = NodeKind_value NK_Break
              \<or> K = NodeKind_value NK_Set then
        Inr n
      else if K = NodeKind_value NK_List then
        (case Data n of
           SequenceData s \<Rightarrow>
             (case SequenceNode_updateASTNodesPointers M s of
                Inl e \<Rightarrow> Inl e
              | Inr s' \<Rightarrow> Inr (n\<lparr>Data := SequenceData s'\<rparr>))
         | _ \<Rightarrow> Inl CastFailure)
      else Inl (Abort ''AST node type not expected''))"

text \<open>
  The body of \<open>ASTNode::updateASTNodesPointers\<close> with the value read by
  \<open>getKind()\<close> as a parameter: the successor is redirected first, then the
  \<open>switch\<close> runs on the node so far.
\<close>

definition updateASTNodesPointers_kind :: "nat \<Rightarrow> ASTNodeMap \<Rightarrow> ASTNode \<Rightarrow> error + ASTNode" where
  "updateASTNodesPointers_kind K M n =
     (case redirect M (Successor n) of
        Inl e \<Rightarrow> Inl e
      | Inr s \<Rightarrow> updateASTNodesPointers_switch K M (n\<lparr>Successor := s\<rparr>))"

definition updateASTNodesPointers :: "ASTNodeMap \<Rightarrow> ASTNode \<Rightarrow> error + ASTNode" where
  "updateASTNodesPointers M n = updateASTNodesPointers_kind (NodeKind_value (getKind n)) M n"

text \<open>
  The AST-node references a node holds: its hybrid successor, then the references of
  its kind (\<open>If.then/else\<close>, \<open>Scs.body\<close>, \<open>Sequence.children\<close>,
  \<open>Switch.cases[i].child\<close>, \<open>SwitchBreak.parent_switch\<close>).
\<close>

fun kindReferences :: "NodeData \<Rightarrow> ptr list" where
  "kindReferences (IfData i) = [Then i, Else i]"
| "kindReferences (ScsData s) = [Body s]"
| "kindReferences (SequenceData s) = NodeVec s"
| "kindReferences (SwitchData s) = map snd (LabelCaseVec s)"
| "kindReferences (SwitchBreakData s) = [ParentSwitch s]"
| "kindReferences (CodeData _) = []"
| "kindReferences (BreakData _) = []"
| "kindReferences (ContinueData _) = []"
| "kindReferences (SetData _) = []"

definition references :: "ASTNode \<Rightarrow> ptr list" where
  "references n = Successor n # kindReferences (Data n)"

text \<open>\<open>M\<close> applied to a pointer: null stays null.\<close>

definition applyMap :: "ASTNodeMap \<Rightarrow> ptr \<Rightarrow> ptr" where
  "applyMap M p =
     (case p of None \<Rightarrow> None | Some a \<Rightarrow> (case M a of None \<Rightarrow> None | Some v \<Rightarrow> v))"

text \<open>A pointer that is a key of the map.\<close>

definition isKey :: "ASTNodeMap \<Rightarrow> ptr \<Rightarrow> bool" where
  "isKey M p = (case p of None \<Rightarrow> False | Some a \<Rightarrow> M a \<noteq> None)"

section \<open>Nodes in memory\<close>

text \<open>
  The heap is the list of the nodes allocated so far; the address of a node is its
  index. \<open>new\<close> appends, so a fresh address differs from every address in use. A
  pointer is valid when it is non-null and below the length of the heap.
\<close>

type_synonym heap = "ASTNode list"

definition lookup :: "heap \<Rightarrow> ptr \<Rightarrow> error + ASTNode" where
  "lookup h p =
     (case p of
        None \<Rightarrow> Inl InvalidPointer
      | Some a \<Rightarrow> if a < length h then Inr (h ! a) else Inl InvalidPointer)"

text \<open>Writing through a pointer that \<open>lookup\<close> has found valid.\<close>

definition store :: "heap \<Rightarrow> ptr \<Rightarrow> ASTNode \<Rightarrow> heap" where
  "store h p n = (case p of None \<Rightarrow> h | Some a \<Rightarrow> h[a := n])"

text \<open>
  \<open>new T(*this)\<close>: every subclass has the defaulted copy constructor, which copies
  each member of the node, the base members \<open>BB\<close>, \<open>Name\<close>, \<open>Successor\<close> and
  \<open>ID\<close> included.
\<close>

definition copy_new :: "heap \<Rightarrow> ASTNode \<Rightarrow> heap \<times> ptr" where
  "copy_new h n = (h @ [n], Some (length h))"

text \<open>
  \<open>ASTNode::Clone\<close> switches on the kind and calls the \<open>Clone\<close> of the subclass;
  each of them is \<open>return new T(*this)\<close>. The result is the new heap and the
  returned pointer.
\<close>

definition Clone :: "heap \<Rightarrow> ptr \<Rightarrow> error + heap \<times> ptr" where
  "Clone h this =
     (case lookup h this of
        Inl e \<Rightarrow> Inl e
      | Inr n \<Rightarrow>
          (case getKind n of
             NK_Code \<Rightarrow> Inr (copy_new h n)
           | NK_Break \<Rightarrow> Inr (copy_new h n)
           | NK_Continue \<Rightarrow> Inr (copy_new h n)
           | NK_If \<Rightarrow> Inr (copy_new h n)
           | NK_Scs \<Rightarrow> Inr (copy_new h n)
           | NK_List \<Rightarrow> Inr (copy_new h n)
           | NK_Switch \<Rightarrow> Inr (copy_new h n)
           | NK_SwitchBreak \<Rightarrow> Inr (copy_new h n)
           | NK_Set \<Rightarrow> Inr (copy_new h n)))"

subsection \<open>\<open>SequenceNode::addNode\<close>\<close>

text \<open>
  The number of nodes that still hold a hybrid successor. \<open>addNode\<close> recurses only
  after \<open>consumeSuccessor\<close> has cleared one, which is why it terminates on every
  heap, cyclic successor chains included.
\<close>

definition pendingSuccessors :: "heap \<Rightarrow> nat" where
  "pendingSuccessors h = length (filter (\<lambda>n. Successor n \<noteq> None) h)"

lemma pendingSuccessors_update:
  "a < length h \<Longrightarrow>
   pendingSuccessors (h[a := n]) + (if Successor (h ! a) \<noteq> None then 1 else 0)
     = pendingSuccessors h + (if Successor n \<noteq> None then 1 else 0)"
proof (induction h arbitrary: a)
  case Nil
  then show ?case by simp
next
  case (Cons x h)
  show ?case
  proof (cases a)
    case 0
    then show ?thesis by (simp add: pendingSuccessors_def)
  next
    case (Suc b)
    with Cons.prems have "b < length h" by simp
    from Cons.IH[OF this] Suc show ?thesis
      by (simp add: pendingSuccessors_def)
  qed
qed

text \<open>
  \<open>addNode\<close> on the sequence node at \<open>this\<close>: push the pointer, then, if the pushed
  node has a successor, consume it and add it in turn.
\<close>

function addNode :: "heap \<Rightarrow> addr \<Rightarrow> ptr \<Rightarrow> error + heap" where
  "addNode h this Node =
     (case lookup h (Some this) of
        Inl e \<Rightarrow> Inl e
      | Inr s \<Rightarrow>
          (case Data s of
             SequenceData v \<Rightarrow>
               (let h1 = h[this := s\<lparr>Data := SequenceData (v\<lparr>NodeVec := NodeVec v @ [Node]\<rparr>)\<rparr>]
                in case lookup h1 Node of
                     Inl e \<Rightarrow> Inl e
                   | Inr n \<Rightarrow>
                       if getSuccessor n \<noteq> None
                       then addNode (store h1 Node (snd (consumeSuccessor n))) this
                              (fst (consumeSuccessor n))
                       else Inr h1)
           | _ \<Rightarrow> Inl CastFailure))"
  by pat_completeness auto
termination
proof (relation "measure (\<lambda>(h, this, Node). pendingSuccessors h)")
  show "wf (measure (\<lambda>(h, this, Node). pendingSuccessors h))" by simp
next
  fix h :: heap and this :: addr and Node :: ptr and s v h1 n
  assume s: "lookup h (Some this) = Inr s"
    and h1: "h1 = h[this := s\<lparr>Data := SequenceData (v\<lparr>NodeVec := NodeVec v @ [Node]\<rparr>)\<rparr>]"
    and n: "lookup h1 Node = Inr n"
    and succ: "getSuccessor n \<noteq> None"
  from s have valid: "this < length h" "s = h ! this"
    by (auto simp: lookup_def split: if_splits)
  from n obtain a where a: "Node = Some a" "a < length h1" "n = h1 ! a"
    by (auto simp: lookup_def split: option.splits if_splits)
  have p1: "pendingSuccessors h1 = pendingSuccessors h"
    using pendingSuccessors_update[OF valid(1), of "s\<lparr>Data := SequenceData (v\<lparr>NodeVec := NodeVec v @ [Node]\<rparr>)\<rparr>"]
      valid(2) h1 by simp
  have "pendingSuccessors (h1[a := snd (consumeSuccessor n)]) + 1 = pendingSuccessors h1"
    using pendingSuccessors_update[OF a(2), of "snd (consumeSuccessor n)"] a(3) succ
    by (simp add: consumeSuccessor_def getSuccessor_def)
  with p1 a show "((store h1 Node (snd (consumeSuccessor n)), this, fst (consumeSuccessor n)),
          (h, this, Node)) \<in> measure (\<lambda>(h, this, Node). pendingSuccessors h)"
    by (simp add: store_def)
qed

declare addNode.simps [simp del]

text \<open>
  \<open>SequenceNode::createEmpty\<close>: the private constructor passes the kind and the name
  to the base class, so the origin block and the successor are null, the ID is 0,
  and the vector of children is empty.
\<close>

definition createEmpty :: "heap \<Rightarrow> string \<Rightarrow> heap \<times> addr" where
  "createEmpty h Name' =
     (h @ [\<lparr>BB = None, Name = Name', Successor = None, ID = 0,
            Data = SequenceData \<lparr>NodeVec = []\<rparr>\<rparr>], length h)"

text \<open>
  Modelled from the spec: the traversal that builds the sequences is not among the
  sources. The spec (section 4.3) says that for every node with a non-null hybrid
  successor the node is pushed into a fresh \<open>Sequence\<close> and the consumed successor
  is appended, recursively. The model takes the nodes in the order the traversal
  visits them; re-linking the parent to the new sequence touches no successor and
  is left out.
\<close>

fun sequencing :: "heap \<Rightarrow> addr list \<Rightarrow> error + heap" where
  "sequencing h [] = Inr h"
| "sequencing h (p # ps) =
     (case lookup h (Some p) of
        Inl e \<Rightarrow> Inl e
      | Inr n \<Rightarrow>
          if getSuccessor n \<noteq> None
          then (case createEmpty h ''sequence'' of
                  (h1, s) \<Rightarrow>
                    (case addNode h1 s (Some p) of
                       Inl e \<Rightarrow> Inl e
                     | Inr h2 \<Rightarrow> sequencing h2 ps))
          else sequencing h ps)"

subsection \<open>Structural equality\<close>

text \<open>
  \<open>isEqual\<close> recurses through child pointers, so on a cyclic heap it need not
  return. It is given fuel: the result \<open>None\<close> stands for no result, either because
  the fuel ran out or because a dangling pointer was followed.

  \<open>llvm::dyn_cast_or_null<T>(Node)\<close>: null for a null pointer and for a node of
  another kind.
\<close>

definition dyn_cast_or_null :: "NodeKind \<Rightarrow> heap \<Rightarrow> ptr \<Rightarrow> ASTNode option option" where
  "dyn_cast_or_null K h p =
     (case p of
        None \<Rightarrow> Some None
      | Some a \<Rightarrow>
          if a < length h
          then (if getKind (h ! a) = K then Some (Some (h ! a)) else Some None)
          else None)"

text \<open>
  The three \<open>nodeIsEqual\<close> methods defined in the header: the other node is of the
  same kind, and nothing else is looked at.
\<close>

definition BreakNode_nodeIsEqual :: "heap \<Rightarrow> ptr \<Rightarrow> bool option" where
  "BreakNode_nodeIsEqual h Node = map_option (\<lambda>r. None \<noteq> r) (dyn_cast_or_null NK_Break h Node)"

definition ContinueNode_nodeIsEqual :: "heap \<Rightarrow> ptr \<Rightarrow> bool option" where
  "ContinueNode_nodeIsEqual h Node =
     map_option (\<lambda>r. None \<noteq> r) (dyn_cast_or_null NK_Continue h Node)"

definition SwitchBreakNode_nodeIsEqual :: "heap \<Rightarrow> ptr \<Rightarrow> bool option" where
  "SwitchBreakNode_nodeIsEqual h Node =
     map_option (\<lambda>r. None \<noteq> r) (dyn_cast_or_null NK_SwitchBreak h Node)"

text \<open>
  Modelled from the spec: \<open>CodeNode::nodeIsEqual\<close>, \<open>IfNode::nodeIsEqual\<close>,
  \<open>ScsNode::nodeIsEqual\<close>, \<open>SequenceNode::nodeIsEqual\<close>,
  \<open>SwitchNode::nodeIsEqual\<close> and \<open>SetNode::nodeIsEqual\<close> are declared in the
  header and defined in \<open>ASTNode.cpp\<close>, which is not among the sources. The spec
  (section 4.5) says that structural equality compares the kind and the attribute
  fields (label sets, dispatcher kind, loop type, weaved flag, state value) and
  recurses into children, and that IDs and names are ignored. The model compares
  the kind first, then the attribute fields the kind has, then the children in
  order, stopping at the first pair that differs. An absent child equals only an
  absent child.
\<close>

fun andThen :: "bool option \<Rightarrow> bool option \<Rightarrow> bool option" where
  "andThen None r = None"
| "andThen (Some False) r = Some False"
| "andThen (Some True) r = r"

definition childIsEqual :: "(addr \<Rightarrow> ptr \<Rightarrow> bool option) \<Rightarrow> ptr \<Rightarrow> ptr \<Rightarrow> bool option" where
  "childIsEqual eq p q = (case p of None \<Rightarrow> Some (q = None) | Some a \<Rightarrow> eq a q)"

fun childrenAreEqual ::
    "(addr \<Rightarrow> ptr \<Rightarrow> bool option) \<Rightarrow> ptr list \<Rightarrow> ptr list \<Rightarrow> bool option" where
  "childrenAreEqual eq [] [] = Some True"
| "childrenAreEqual eq (p # ps) (q # qs) =
     andThen (childIsEqual eq p q) (childrenAreEqual eq ps qs)"
| "childrenAreEqual eq [] (q # qs) = Some False"
| "childrenAreEqual eq (p # ps) [] = Some False"

definition CodeNode_nodeIsEqual :: "heap \<Rightarrow> ptr \<Rightarrow> bool option" where
  "CodeNode_nodeIsEqual h Node = map_option (\<lambda>r. None \<noteq> r) (dyn_cast_or_null NK_Code h Node)"

definition SetNode_nodeIsEqual :: "SetNode \<Rightarrow> heap \<Rightarrow> ptr \<Rightarrow> bool option" where
  "SetNode_nodeIsEqual s h Node =
     (case dyn_cast_or_null NK_Set h Node of
        None \<Rightarrow> None
      | Some None \<Rightarrow> Some False
      | Some (Some m) \<Rightarrow>
          (case Data m of
             SetData t \<Rightarrow>
               Some (StateVariableValue s = StateVariableValue t
                     \<and> SetNode.DKind s = SetNode.DKind t)
           | _ \<Rightarrow> None))"

definition IfNode_nodeIsEqual ::
    "(addr \<Rightarrow> ptr \<Rightarrow> bool option) \<Rightarrow> IfNode \<Rightarrow> heap \<Rightarrow> ptr \<Rightarrow> bool option" where
  "IfNode_nodeIsEqual eq i h Node =
     (case dyn_cast_or_null NK_If h Node of
        None \<Rightarrow> None
      | Some None \<Rightarrow> Some False
      | Some (Some m) \<Rightarrow>
          (case Data m of
             IfData j \<Rightarrow>
               if IfNode.IsWeaved i = IfNode.IsWeaved j
               then childrenAreEqual eq [Then i, Else i] [Then j, Else j]
               else Some False
           | _ \<Rightarrow> None))"

definition ScsNode_nodeIsEqual ::
    "(addr \<Rightarrow> ptr \<Rightarrow> bool option) \<Rightarrow> ScsNode \<Rightarrow> heap \<Rightarrow> ptr \<Rightarrow> bool option" where
  "ScsNode_nodeIsEqual eq s h Node =
     (case dyn_cast_or_null NK_Scs h Node of
        None \<Rightarrow> None
      | Some None \<Rightarrow> Some False
      | Some (Some m) \<Rightarrow>
          (case Data m of
             ScsData t \<Rightarrow>
               if LoopType s = LoopType t
               then childrenAreEqual eq [Body s] [Body t]
               else Some False
           | _ \<Rightarrow> None))"

definition SequenceNode_nodeIsEqual ::
    "(addr \<Rightarrow> ptr \<Rightarrow> bool option) \<Rightarrow> SequenceNode \<Rightarrow> heap \<Rightarrow> ptr \<Rightarrow> bool option" where
  "SequenceNode_nodeIsEqual eq s h Node =
     (case dyn_cast_or_null NK_List h Node of
        None \<Rightarrow> None
      | Some None \<Rightarrow> Some False
      | Some (Some m) \<Rightarrow>
          (case Data m of
             SequenceData t \<Rightarrow> childrenAreEqual eq (NodeVec s) (NodeVec t)
           | _ \<Rightarrow> None))"

definition SwitchNode_nodeIsEqual ::
    "(addr \<Rightarrow> ptr \<Rightarrow> bool option) \<Rightarrow> SwitchNode \<Rightarrow> heap \<Rightarrow> ptr \<Rightarrow> bool option" where
  "SwitchNode_nodeIsEqual eq s h Node =
     (case dyn_cast_or_null NK_Switch h Node of
        None \<Rightarrow> None
      | Some None \<Rightarrow> Some False
      | Some (Some m) \<Rightarrow>
          (case Data m of
             SwitchData t \<Rightarrow>
               if map fst (LabelCaseVec s) = map fst (LabelCaseVec t)
                  \<and> SwitchNode.DKind s = SwitchNode.DKind t
                  \<and> SwitchNode.IsWeaved s = SwitchNode.IsWeaved t
               then childrenAreEqual eq (map snd (LabelCaseVec s)) (map snd (LabelCaseVec t))
               else Some False
           | _ \<Rightarrow> None))"

text \<open>\<open>ASTNode::isEqual\<close>: the switch over the kind of \<open>this\<close>.\<close>

fun isEqual :: "nat \<Rightarrow> heap \<Rightarrow> addr \<Rightarrow> ptr \<Rightarrow> bool option" where
  "isEqual 0 h this Node = None"
| "isEqual (Suc fuel) h this Node =
     (if this < length h then
        (case Data (h ! this) of
           CodeData c \<Rightarrow> CodeNode_nodeIsEqual h Node
         | BreakData b \<Rightarrow> BreakNode_nodeIsEqual h Node
         | ContinueData c \<Rightarrow> ContinueNode_nodeIsEqual h Node
         | IfData i \<Rightarrow> IfNode_nodeIsEqual (isEqual fuel h) i h Node
         | ScsData s \<Rightarrow> ScsNode_nodeIsEqual (isEqual fuel h) s h Node
         | SequenceData s \<Rightarrow> SequenceNode_nodeIsEqual (isEqual fuel h) s h Node
         | SwitchData s \<Rightarrow> SwitchNode_nodeIsEqual (isEqual fuel h) s h Node
         | SwitchBreakData s \<Rightarrow> SwitchBreakNode_nodeIsEqual h Node
         | SetData s \<Rightarrow> SetNode_nodeIsEqual s h Node)
      else None)"

text \<open>
  The tree children of a node, and the nodes below a pointer being allocated down
  to a bounded depth (a tree of valid pointers of height at most \<open>d\<close>).
\<close>

fun childPointers :: "NodeData \<Rightarrow> ptr list" where
  "childPointers (IfData i) = [Then i, Else i]"
| "childPointers (ScsData s) = [Body s]"
| "childPointers (SequenceData s) = NodeVec s"
| "childPointers (SwitchData s) = map snd (LabelCaseVec s)"
| "childPointers (CodeData _) = []"
| "childPointers (BreakData _) = []"
| "childPointers (ContinueData _) = []"
| "childPointers (SwitchBreakData _) = []"
| "childPointers (SetData _) = []"

fun wellFormed :: "nat \<Rightarrow> heap \<Rightarrow> ptr \<Rightarrow> bool" where
  "wellFormed d h None = True"
| "wellFormed 0 h (Some a) = False"
| "wellFormed (Suc d) h (Some a) =
     (a < length h \<and> list_all (wellFormed d h) (childPointers (Data (h ! a))))"

text \<open>
  The attribute fields that the spec lists for structural equality, per kind: the
  label sets, the dispatcher kind, the loop type, the weaved flag and the state
  value.
\<close>

fun attributeFields ::
    "NodeData \<Rightarrow> label_set_t list \<times> DispatcherKind option \<times> Type option \<times> bool option
       \<times> 32 word option" where
  "attributeFields (IfData i) = ([], None, None, Some (IfNode.IsWeaved i), None)"
| "attributeFields (ScsData s) = ([], None, Some (LoopType s), None, None)"
| "attributeFields (SwitchData s) =
     (map fst (LabelCaseVec s), Some (SwitchNode.DKind s), None,
      Some (SwitchNode.IsWeaved s), None)"
| "attributeFields (SetData s) =
     ([], Some (SetNode.DKind s), None, None, Some (StateVariableValue s))"
| "attributeFields (CodeData _) = ([], None, None, None, None)"
| "attributeFields (BreakData _) = ([], None, None, None, None)"
| "attributeFields (ContinueData _) = ([], None, None, None, None)"
| "attributeFields (SequenceData _) = ([], None, None, None, None)"
| "attributeFields (SwitchBreakData _) = ([], None, None, None, None)"

text \<open>
  The successor chain that starts at a node, in the heap as it is: each element's
  successor is the next element and the last element has none.
\<close>

fun isChain :: "heap \<Rightarrow> addr \<Rightarrow> addr list \<Rightarrow> bool" where
  "isChain h a [] = False"
| "isChain h a [x] = (x = a \<and> a < length h \<and> Successor (h ! a) = None)"
| "isChain h a (x # y # ys) =
     (x = a \<and> a < length h \<and> Successor (h ! a) = Some y \<and> isChain h y (y # ys))"

text \<open>No successor pointer of the heap dangles.\<close>

definition successorsValid :: "heap \<Rightarrow> bool" where
  "successorsValid h \<longleftrightarrow> list_all (\<lambda>n. case Successor n of None \<Rightarrow> True | Some b \<Rightarrow> b < length h) h"

text \<open>The children of the sequence node at an address.\<close>

definition nodesOf :: "heap \<Rightarrow> addr \<Rightarrow> ptr list" where
  "nodesOf h a = (case Data (h ! a) of SequenceData s \<Rightarrow> NodeVec s | _ \<Rightarrow> [])"

text \<open>
  The nodes reachable from a node through child pointers and hybrid successors.
\<close>

inductive reachable :: "heap \<Rightarrow> addr \<Rightarrow> addr \<Rightarrow> bool" for h :: heap where
  root: "a < length h \<Longrightarrow> reachable h a a"
| link: "reachable h a b \<Longrightarrow> Some c \<in> set (Successor (h ! b) # childPointers (Data (h ! b))) \<Longrightarrow>
         c < length h \<Longrightarrow> reachable h a c"

text \<open>A heap with the ID and the name of every node replaced.\<close>

definition relabel :: "(ASTNode \<Rightarrow> 32 word) \<Rightarrow> (ASTNode \<Rightarrow> string) \<Rightarrow> heap \<Rightarrow> heap" where
  "relabel f g h = map (\<lambda>n. n\<lparr>ID := f n, Name := g n\<rparr>) h"

section \<open>Frame of \<open>consumeSuccessor\<close>\<close>

text \<open>
  Claim C10. \<open>consumeSuccessor\<close> returns what \<open>getSuccessor\<close> returned before the
  call; afterwards \<open>getSuccessor\<close> returns null, and the kind, the ID, the name, the
  origin basic block and the whole subclass part of the node are what they were.
\<close>

theorem consumeSuccessor_frame:
  "fst (consumeSuccessor n) = getSuccessor n
   \<and> getSuccessor (snd (consumeSuccessor n)) = None
   \<and> getKind (snd (consumeSuccessor n)) = getKind n
   \<and> getID (snd (consumeSuccessor n)) = getID n
   \<and> Name (snd (consumeSuccessor n)) = Name n
   \<and> getBB (snd (consumeSuccessor n)) = getBB n
   \<and> Data (snd (consumeSuccessor n)) = Data n
   \<and> snd (consumeSuccessor n) = n\<lparr>Successor := None\<rparr>"
  by (simp add: consumeSuccessor_def getSuccessor_def getKind_def getID_def getBB_def)

section \<open>The default case of a switch\<close>

lemma isDefaultCase_pair: "isDefaultCase (l, p) \<longleftrightarrow> l = {}"
  by (simp add: isDefaultCase_def)

lemma getDefault_loop_no_default:
  "filter isDefaultCase cs = [] \<Longrightarrow> getDefault_loop cs D = Inr D"
  by (induction cs arbitrary: D) (auto simp: isDefaultCase_pair split: if_splits)

lemma getDefault_loop_unique:
  "length (filter isDefaultCase cs) \<le> 1 \<Longrightarrow>
   getDefault_loop cs None = Inr (case filter isDefaultCase cs of [] \<Rightarrow> None | c # _ \<Rightarrow> snd c)"
proof (induction cs)
  case Nil
  then show ?case by simp
next
  case (Cons c cs)
  obtain l p where c: "c = (l, p)" by (cases c)
  show ?case
  proof (cases "l = {}")
    case True
    with Cons.prems c have "filter isDefaultCase cs = []"
      by (simp add: isDefaultCase_pair)
    then show ?thesis
      using True c by (simp add: isDefaultCase_pair getDefault_loop_no_default)
  next
    case False
    with Cons c show ?thesis by (simp add: isDefaultCase_pair)
  qed
qed

lemma removeDefault_loop_erases:
  "LabelCaseVec s = pre @ cs \<Longrightarrow>
   removeDefault_loop s (length pre) cs =
     Inr (s\<lparr>LabelCaseVec := pre @ takeWhile (\<lambda>c. \<not> isDefaultCase c) cs
                                @ drop 1 (dropWhile (\<lambda>c. \<not> isDefaultCase c) cs)\<rparr>)"
proof (induction cs arbitrary: pre)
  case Nil
  then show ?case by simp
next
  case (Cons c cs)
  obtain l p where c: "c = (l, p)" by (cases c)
  show ?case
  proof (cases "l = {}")
    case True
    then show ?thesis
      using Cons.prems c by (simp add: isDefaultCase_pair removeCaseN_def)
  next
    case False
    have "LabelCaseVec s = (pre @ [c]) @ cs" using Cons.prems by simp
    from Cons.IH[OF this] show ?thesis
      using False c by (simp add: isDefaultCase_pair)
  qed
qed

lemma erase_unique_default:
  "length (filter P cs) \<le> 1 \<Longrightarrow>
   takeWhile (\<lambda>c. \<not> P c) cs @ drop 1 (dropWhile (\<lambda>c. \<not> P c) cs) = filter (\<lambda>c. \<not> P c) cs"
proof (induction cs)
  case Nil
  then show ?case by simp
next
  case (Cons c cs)
  show ?case
  proof (cases "P c")
    case True
    with Cons.prems have "filter P cs = []" by simp
    then have "filter (\<lambda>c. \<not> P c) cs = cs"
      by (simp add: filter_empty_conv)
    with True show ?thesis by simp
  next
    case False
    with Cons show ?thesis by simp
  qed
qed

lemma getDefault_loop_found:
  "D \<noteq> None \<Longrightarrow> filter isDefaultCase cs \<noteq> [] \<Longrightarrow> getDefault_loop cs D = Inl AssertionFailure"
proof (induction cs)
  case Nil
  then show ?case by simp
next
  case (Cons c cs)
  obtain l p where c: "c = (l, p)" by (cases c)
  show ?case
  proof (cases "l = {}")
    case True
    with Cons.prems(1) c show ?thesis by auto
  next
    case False
    with Cons c show ?thesis by (simp add: isDefaultCase_pair)
  qed
qed

lemma getDefault_loop_second:
  "1 < length (filter isDefaultCase cs) \<Longrightarrow> \<forall>c \<in> set (filter isDefaultCase cs). snd c \<noteq> None \<Longrightarrow>
   getDefault_loop cs None = Inl AssertionFailure"
proof (induction cs)
  case Nil
  then show ?case by simp
next
  case (Cons c cs)
  obtain l p where c: "c = (l, p)" by (cases c)
  show ?case
  proof (cases "l = {}")
    case True
    with Cons.prems c have p: "p \<noteq> None" and rest: "filter isDefaultCase cs \<noteq> []"
      by (auto simp: isDefaultCase_pair)
    from getDefault_loop_found[OF p rest] True c show ?thesis by simp
  next
    case False
    with Cons c show ?thesis by (simp add: isDefaultCase_pair)
  qed
qed

lemma SwitchNode_ctor_cases:
  "SwitchNode_ctor CFGNode Cond cs S ind = Inr n \<Longrightarrow>
   \<exists>s. Data n = SwitchData s \<and> LabelCaseVec s = cs"
  by (auto simp: SwitchNode_ctor_def Let_def ASTNode_ctor_def split: if_splits)

lemma SwitchNode_ctor_accepts:
  "\<not> isDispatcher CFGNode \<or> getDispatcherType CFGNode = EntryDispatcher
     \<or> getDispatcherType CFGNode = ExitDispatcher \<Longrightarrow>
   \<exists>n. SwitchNode_ctor CFGNode Cond cs S ind = Inr n"
  by (auto simp: SwitchNode_ctor_def Let_def)

lemma SwitchNode_default_invariant:
  "atMostOneDefault s \<Longrightarrow>
     getDefault s = Inr (case defaultCases s of [] \<Rightarrow> None | c # _ \<Rightarrow> snd c)
   \<and> hasDefault s = Inr (\<exists>c \<in> set (LabelCaseVec s). isDefaultCase c \<and> snd c \<noteq> None)
   \<and> removeDefault s =
       Inr (s\<lparr>LabelCaseVec := filter (\<lambda>c. \<not> isDefaultCase c) (LabelCaseVec s)\<rparr>)"
proof -
  assume inv: "atMostOneDefault s"
  then have le: "length (filter isDefaultCase (LabelCaseVec s)) \<le> 1"
    by (simp add: atMostOneDefault_def defaultCases_def)
  have g: "getDefault s = Inr (case defaultCases s of [] \<Rightarrow> None | c # _ \<Rightarrow> snd c)"
    using getDefault_loop_unique[OF le] by (simp add: getDefault_def defaultCases_def)
  have ex: "(case defaultCases s of [] \<Rightarrow> None | c # _ \<Rightarrow> snd c) \<noteq> None
            \<longleftrightarrow> (\<exists>c \<in> set (LabelCaseVec s). isDefaultCase c \<and> snd c \<noteq> None)"
  proof (cases "defaultCases s")
    case Nil
    then show ?thesis
      by (auto simp: defaultCases_def filter_empty_conv)
  next
    case (Cons d ds)
    with le have ds: "ds = []" by (simp add: defaultCases_def)
    have "set (defaultCases s) = {d}" using Cons ds by simp
    then have "{c \<in> set (LabelCaseVec s). isDefaultCase c} = {d}"
      by (simp add: defaultCases_def)
    then have mem: "\<And>c. c \<in> set (LabelCaseVec s) \<Longrightarrow> isDefaultCase c \<Longrightarrow> c = d"
      and d: "d \<in> set (LabelCaseVec s)" "isDefaultCase d"
      by blast+
    have "(\<exists>c \<in> set (LabelCaseVec s). isDefaultCase c \<and> snd c \<noteq> None) = (snd d \<noteq> None)"
    proof
      assume "\<exists>c \<in> set (LabelCaseVec s). isDefaultCase c \<and> snd c \<noteq> None"
      then obtain c where "c \<in> set (LabelCaseVec s)" "isDefaultCase c" "snd c \<noteq> None"
        by blast
      with mem[of c] show "snd d \<noteq> None" by simp
    next
      assume "snd d \<noteq> None"
      with d show "\<exists>c \<in> set (LabelCaseVec s). isDefaultCase c \<and> snd c \<noteq> None"
        by blast
    qed
    then show ?thesis using Cons by simp
  qed
  have h: "hasDefault s = Inr (\<exists>c \<in> set (LabelCaseVec s). isDefaultCase c \<and> snd c \<noteq> None)"
  proof -
    let ?d = "case defaultCases s of [] \<Rightarrow> None | c # _ \<Rightarrow> snd c"
    have "hasDefault s = Inr (None \<noteq> ?d)"
      unfolding hasDefault_def g by simp
    moreover have "(None \<noteq> x) = (x \<noteq> None)" for x :: ptr
      by (cases x) simp_all
    ultimately have "hasDefault s = Inr (?d \<noteq> None)" by (simp only:)
    then show ?thesis by (simp only: ex)
  qed
  have r: "removeDefault s =
       Inr (s\<lparr>LabelCaseVec := filter (\<lambda>c. \<not> isDefaultCase c) (LabelCaseVec s)\<rparr>)"
    using removeDefault_loop_erases[of s "[]" "LabelCaseVec s"] erase_unique_default[OF le]
    by (simp add: removeDefault_def)
  from g h r show ?thesis by simp
qed


text \<open>
  Claim C4, as amended. The constructor of \<open>SwitchNode\<close> keeps the case list it is
  given, whatever its label sets, so the node it returns has at most one case with
  an empty label set exactly when that list has. For a \<open>SwitchNode\<close> with at most
  one such case: \<open>getDefault\<close> returns, without failing its assertion, the child of
  that case when there is one and null when there is none; \<open>hasDefault\<close> is true
  exactly when there is such a case and its child is not null; \<open>removeDefault\<close>
  erases that case and keeps every other case, in order. For a \<open>SwitchNode\<close> with
  more than one such case, none with a null child, \<open>getDefault\<close> fails its
  assertion.
\<close>

theorem SwitchNode_default:
  "(\<not> isDispatcher CFGNode \<or> getDispatcherType CFGNode = EntryDispatcher
      \<or> getDispatcherType CFGNode = ExitDispatcher \<longrightarrow>
      (\<exists>n s'. SwitchNode_ctor CFGNode Cond cs S ind = Inr n \<and> Data n = SwitchData s'
         \<and> LabelCaseVec s' = cs
         \<and> (atMostOneDefault s' \<longleftrightarrow> length (filter isDefaultCase cs) \<le> 1)))
   \<and> (atMostOneDefault s \<longrightarrow>
        getDefault s = Inr (case defaultCases s of [] \<Rightarrow> None | c # _ \<Rightarrow> snd c)
        \<and> hasDefault s = Inr (\<exists>c \<in> set (LabelCaseVec s). isDefaultCase c \<and> snd c \<noteq> None)
        \<and> removeDefault s =
            Inr (s\<lparr>LabelCaseVec := filter (\<lambda>c. \<not> isDefaultCase c) (LabelCaseVec s)\<rparr>))
   \<and> (\<not> atMostOneDefault s \<and> (\<forall>c \<in> set (defaultCases s). snd c \<noteq> None) \<longrightarrow>
        getDefault s = Inl AssertionFailure)"
proof (intro conjI impI)
  assume ok: "\<not> isDispatcher CFGNode \<or> getDispatcherType CFGNode = EntryDispatcher
      \<or> getDispatcherType CFGNode = ExitDispatcher"
  from SwitchNode_ctor_accepts[OF ok] obtain n where
    n: "SwitchNode_ctor CFGNode Cond cs S ind = Inr n" by blast
  from SwitchNode_ctor_cases[OF n] obtain s' where
    s': "Data n = SwitchData s'" "LabelCaseVec s' = cs" by blast
  then have "atMostOneDefault s' \<longleftrightarrow> length (filter isDefaultCase cs) \<le> 1"
    by (simp add: atMostOneDefault_def defaultCases_def)
  with n s' show "\<exists>n s'. SwitchNode_ctor CFGNode Cond cs S ind = Inr n \<and> Data n = SwitchData s'
         \<and> LabelCaseVec s' = cs
         \<and> (atMostOneDefault s' \<longleftrightarrow> length (filter isDefaultCase cs) \<le> 1)"
    by blast
next
  assume inv: "atMostOneDefault s"
  from SwitchNode_default_invariant[OF inv]
  show "getDefault s = Inr (case defaultCases s of [] \<Rightarrow> None | c # _ \<Rightarrow> snd c)"
    and "hasDefault s = Inr (\<exists>c \<in> set (LabelCaseVec s). isDefaultCase c \<and> snd c \<noteq> None)"
    and "removeDefault s =
            Inr (s\<lparr>LabelCaseVec := filter (\<lambda>c. \<not> isDefaultCase c) (LabelCaseVec s)\<rparr>)"
    by simp_all
next
  assume "\<not> atMostOneDefault s \<and> (\<forall>c \<in> set (defaultCases s). snd c \<noteq> None)"
  then show "getDefault s = Inl AssertionFailure"
    using getDefault_loop_second[of "LabelCaseVec s"]
    by (simp add: atMostOneDefault_def defaultCases_def getDefault_def)
qed

theorem SwitchNode_default_witness:
  "SwitchNode_ctor
     \<lparr>isCode = True, getOriginalNode = Some 7, getNameStr = ''switch'',
       getStateVariableValue = 0, getDispatcherType = Code, isWeaved = True,
       isDispatcher = False\<rparr>
     (Some 9) [({1}, Some 4), ({}, Some 5), ({2, 3}, Some 6)] None DK_NotADispatcher
     = Inr \<lparr>BB = Some 7, Name = ''switch'', Successor = None, ID = 0,
        Data = SwitchData
     \<lparr>Condition = Some 9, LabelCaseVec = [({1}, Some 4), ({}, Some 5), ({2, 3}, Some 6)],
       SwitchNode.IsWeaved = True, NeedStateVariable = False, NeedLoopBreakDispatcher = False,
       SwitchNode.DKind = DK_NotADispatcher\<rparr>\<rparr>
   \<and> atMostOneDefault
     \<lparr>Condition = Some 9, LabelCaseVec = [({1}, Some 4), ({}, Some 5), ({2, 3}, Some 6)],
       SwitchNode.IsWeaved = True, NeedStateVariable = False, NeedLoopBreakDispatcher = False,
       SwitchNode.DKind = DK_NotADispatcher\<rparr>
   \<and> getDefault
     \<lparr>Condition = Some 9, LabelCaseVec = [({1}, Some 4), ({}, Some 5), ({2, 3}, Some 6)],
       SwitchNode.IsWeaved = True, NeedStateVariable = False, NeedLoopBreakDispatcher = False,
       SwitchNode.DKind = DK_NotADispatcher\<rparr> = Inr (Some 5)
   \<and> hasDefault
     \<lparr>Condition = Some 9, LabelCaseVec = [({1}, Some 4), ({}, Some 5), ({2, 3}, Some 6)],
       SwitchNode.IsWeaved = True, NeedStateVariable = False, NeedLoopBreakDispatcher = False,
       SwitchNode.DKind = DK_NotADispatcher\<rparr> = Inr True
   \<and> removeDefault
     \<lparr>Condition = Some 9, LabelCaseVec = [({1}, Some 4), ({}, Some 5), ({2, 3}, Some 6)],
       SwitchNode.IsWeaved = True, NeedStateVariable = False, NeedLoopBreakDispatcher = False,
       SwitchNode.DKind = DK_NotADispatcher\<rparr>
     = Inr
     \<lparr>Condition = Some 9, LabelCaseVec = [({1}, Some 4), ({2, 3}, Some 6)],
       SwitchNode.IsWeaved = True, NeedStateVariable = False, NeedLoopBreakDispatcher = False,
       SwitchNode.DKind = DK_NotADispatcher\<rparr>"
proof -
  let ?s = "\<lparr>Condition = Some 9, LabelCaseVec = [({1}, Some 4), ({}, Some 5), ({2, 3}, Some 6)],
       SwitchNode.IsWeaved = True, NeedStateVariable = False, NeedLoopBreakDispatcher = False,
       SwitchNode.DKind = DK_NotADispatcher\<rparr>"
  have inv: "atMostOneDefault ?s"
    by (simp add: atMostOneDefault_def defaultCases_def isDefaultCase_def)
  from SwitchNode_default [where s = ?s and cs = "[({1}, Some 4), ({}, Some 5), ({2, 3}, Some 6)]"
      and Cond = "Some 9" and S = None and ind = DK_NotADispatcher
      and CFGNode = "\<lparr>isCode = True, getOriginalNode = Some 7, getNameStr = ''switch'',
       getStateVariableValue = 0, getDispatcherType = Code, isWeaved = True,
       isDispatcher = False\<rparr>"] inv
  show ?thesis
    by (simp add: defaultCases_def isDefaultCase_def SwitchNode_ctor_def ASTNode_ctor_def)
qed

text \<open>
  The claim as stated says that every \<open>SwitchNode\<close> has at most one case with an
  empty label set, and that \<open>hasDefault\<close> is true whenever such a case exists. The
  constructor accepts a case list with two empty label sets: the node it returns
  breaks the invariant, and \<open>getDefault\<close> on it fails its assertion. A switch
  whose only case is a default with a null child satisfies the invariant and has
  the case, yet \<open>hasDefault\<close> is false: it compares the child returned by
  \<open>getDefault\<close> with null.
\<close>

theorem SwitchNode_default_counterexample:
  "SwitchNode_ctor
     \<lparr>isCode = True, getOriginalNode = Some 7, getNameStr = ''switch'',
       getStateVariableValue = 0, getDispatcherType = Code, isWeaved = True,
       isDispatcher = False\<rparr>
     (Some 9) [({}, Some 1), ({}, Some 2)] None DK_NotADispatcher
     = Inr \<lparr>BB = Some 7, Name = ''switch'', Successor = None, ID = 0,
        Data = SwitchData
     \<lparr>Condition = Some 9, LabelCaseVec = [({}, Some 1), ({}, Some 2)],
       SwitchNode.IsWeaved = True, NeedStateVariable = False, NeedLoopBreakDispatcher = False,
       SwitchNode.DKind = DK_NotADispatcher\<rparr>\<rparr>
   \<and> \<not> atMostOneDefault
     \<lparr>Condition = Some 9, LabelCaseVec = [({}, Some 1), ({}, Some 2)],
       SwitchNode.IsWeaved = True, NeedStateVariable = False, NeedLoopBreakDispatcher = False,
       SwitchNode.DKind = DK_NotADispatcher\<rparr>
   \<and> getDefault
     \<lparr>Condition = Some 9, LabelCaseVec = [({}, Some 1), ({}, Some 2)],
       SwitchNode.IsWeaved = True, NeedStateVariable = False, NeedLoopBreakDispatcher = False,
       SwitchNode.DKind = DK_NotADispatcher\<rparr> = Inl AssertionFailure
   \<and> atMostOneDefault
     \<lparr>Condition = None, LabelCaseVec = [({}, None)],
       SwitchNode.IsWeaved = False, NeedStateVariable = False, NeedLoopBreakDispatcher = False,
       SwitchNode.DKind = DK_NotADispatcher\<rparr>
   \<and> ({}, None) \<in> set (LabelCaseVec
     \<lparr>Condition = None, LabelCaseVec = [({}, None)],
       SwitchNode.IsWeaved = False, NeedStateVariable = False, NeedLoopBreakDispatcher = False,
       SwitchNode.DKind = DK_NotADispatcher\<rparr>)
   \<and> hasDefault
     \<lparr>Condition = None, LabelCaseVec = [({}, None)],
       SwitchNode.IsWeaved = False, NeedStateVariable = False, NeedLoopBreakDispatcher = False,
       SwitchNode.DKind = DK_NotADispatcher\<rparr> = Inr False"
  by (simp add: atMostOneDefault_def defaultCases_def isDefaultCase_def hasDefault_def
      getDefault_def SwitchNode_ctor_def ASTNode_ctor_def)

section \<open>The related condition of a loop\<close>

text \<open>
  Claim C7, as amended. A freshly constructed \<open>ScsNode\<close> satisfies the invariant.
  \<open>setWhile\<close> and \<open>setDoWhile\<close> fail their assertion unless the loop type is
  still \<open>WhileTrue\<close>, and otherwise set the loop type and store the condition they
  are given. When that condition is not null the invariant holds afterwards and
  \<open>getRelatedCondition\<close> returns it. \<open>getRelatedCondition\<close> fails its assertion on
  a \<open>WhileTrue\<close> loop and on a null related condition, and returns the related
  condition in every other state.
\<close>

theorem ScsNode_related_condition:
  "hasRelatedCondition (ScsNode_new b)
   \<and> (LoopType s \<noteq> WhileTrue \<longrightarrow>
        setWhile s c = Inl AssertionFailure \<and> setDoWhile s c = Inl AssertionFailure)
   \<and> (LoopType s = WhileTrue \<longrightarrow>
        setWhile s c = Inr (s\<lparr>LoopType := While, RelatedCondition := c\<rparr>)
        \<and> setDoWhile s c = Inr (s\<lparr>LoopType := DoWhile, RelatedCondition := c\<rparr>))
   \<and> (c \<noteq> None \<longrightarrow>
        hasRelatedCondition (s\<lparr>LoopType := While, RelatedCondition := c\<rparr>)
        \<and> hasRelatedCondition (s\<lparr>LoopType := DoWhile, RelatedCondition := c\<rparr>)
        \<and> getRelatedCondition (s\<lparr>LoopType := While, RelatedCondition := c\<rparr>) = Inr c
        \<and> getRelatedCondition (s\<lparr>LoopType := DoWhile, RelatedCondition := c\<rparr>) = Inr c)
   \<and> (LoopType s = WhileTrue \<or> RelatedCondition s = None \<longrightarrow>
        getRelatedCondition s = Inl AssertionFailure)
   \<and> (LoopType s \<noteq> WhileTrue \<and> RelatedCondition s \<noteq> None \<longrightarrow>
        getRelatedCondition s = Inr (RelatedCondition s))"
  by (cases "LoopType s")
     (auto simp: hasRelatedCondition_def ScsNode_new_def setWhile_def setDoWhile_def
        getRelatedCondition_def)

theorem ScsNode_related_condition_witness:
  "setWhile (ScsNode_new (Some 1)) (Some 2)
     = Inr \<lparr>Body = Some 1, LoopType = While, RelatedCondition = Some 2\<rparr>
   \<and> getRelatedCondition \<lparr>Body = Some 1, LoopType = While, RelatedCondition = Some 2\<rparr>
     = Inr (Some 2)
   \<and> setDoWhile \<lparr>Body = Some 1, LoopType = While, RelatedCondition = Some 2\<rparr> (Some 3)
     = Inl AssertionFailure
   \<and> getRelatedCondition (ScsNode_new (Some 1)) = Inl AssertionFailure"
  using ScsNode_related_condition [of "Some 1" "ScsNode_new (Some 1)" "Some 2"]
    ScsNode_related_condition
      [of "Some 1" "\<lparr>Body = Some 1, LoopType = While, RelatedCondition = Some 2\<rparr>" "Some 3"]
  by (simp add: ScsNode_new_def)

text \<open>
  The claim as stated has \<open>getRelatedCondition\<close> return \<open>c\<close> after
  \<open>setWhile(c)\<close> for every \<open>c\<close>, and every \<open>While\<close> loop hold a non-null
  condition. \<open>setWhile\<close> does not check its argument: with a null pointer it
  succeeds, the loop is a \<open>While\<close> with a null related condition, and
  \<open>getRelatedCondition\<close> fails.
\<close>

theorem setWhile_null_counterexample:
  "setWhile (ScsNode_new (Some 1)) None
     = Inr \<lparr>Body = Some 1, LoopType = While, RelatedCondition = None\<rparr>
   \<and> \<not> hasRelatedCondition \<lparr>Body = Some 1, LoopType = While, RelatedCondition = None\<rparr>
   \<and> getRelatedCondition \<lparr>Body = Some 1, LoopType = While, RelatedCondition = None\<rparr>
     = Inl AssertionFailure"
  by (simp add: ScsNode_new_def setWhile_def hasRelatedCondition_def getRelatedCondition_def)

section \<open>Redirection through the substitution map\<close>

lemma redirect_keyed:
  "p = None \<or> isKey M p \<Longrightarrow> redirect M p = Inr (applyMap M p)"
  by (cases p) (auto simp: redirect_def isKey_def applyMap_def map_at_def)

lemma redirect_all_keyed:
  "\<forall>p \<in> set ps. p = None \<or> isKey M p \<Longrightarrow> redirect_all M ps = Inr (map (applyMap M) ps)"
  by (induction ps) (simp_all add: redirect_keyed)

lemma redirect_cases_keyed:
  "\<forall>p \<in> set (map snd cs). p = None \<or> isKey M p \<Longrightarrow>
   redirect_cases M cs = Inr (map (\<lambda>c. (fst c, applyMap M (snd c))) cs)"
proof (induction cs)
  case Nil
  then show ?case by simp
next
  case (Cons c cs)
  obtain l p where c: "c = (l, p)" by (cases c)
  with Cons show ?case by (simp add: redirect_keyed)
qed

lemma applyMap_fresh:
  "\<forall>a v. M a = Some v \<longrightarrow> \<not> isKey M v \<Longrightarrow> \<not> isKey M (applyMap M p)"
  by (cases p) (auto simp: applyMap_def isKey_def split: option.splits)

lemma updateASTNodesPointers_keyed:
  assumes dom: "\<forall>p \<in> set (references n). p = None \<or> isKey M p"
    and cont: "\<forall>c. Data n = ContinueData c \<longrightarrow> \<not> hasComputation c"
  shows "\<exists>n'. updateASTNodesPointers M n = Inr n'
           \<and> references n' = map (applyMap M) (references n)
           \<and> getKind n' = getKind n \<and> BB n' = BB n \<and> Name n' = Name n \<and> ID n' = ID n
           \<and> attributeFields (Data n') = attributeFields (Data n)"
proof -
  from dom have succ: "redirect M (Successor n) = Inr (applyMap M (Successor n))"
    by (simp add: references_def redirect_keyed)
  from dom have kr: "\<forall>p \<in> set (kindReferences (Data n)). p = None \<or> isKey M p"
    by (simp add: references_def)
  show ?thesis
  proof (cases "Data n")
    case (CodeData x)
    then show ?thesis
      by (simp add: updateASTNodesPointers_def updateASTNodesPointers_kind_def succ
          updateASTNodesPointers_switch_def getKind_def references_def)
  next
    case (BreakData x)
    then show ?thesis
      by (simp add: updateASTNodesPointers_def updateASTNodesPointers_kind_def succ
          updateASTNodesPointers_switch_def getKind_def references_def)
  next
    case (ContinueData x)
    with cont have "\<not> hasComputation x" by simp
    with ContinueData show ?thesis
      by (simp add: updateASTNodesPointers_def updateASTNodesPointers_kind_def succ
          updateASTNodesPointers_switch_def getKind_def references_def)
  next
    case (IfData x)
    with kr have "redirect M (Then x) = Inr (applyMap M (Then x))"
      "redirect M (Else x) = Inr (applyMap M (Else x))"
      by (simp_all add: redirect_keyed)
    with IfData show ?thesis
      by (simp add: updateASTNodesPointers_def updateASTNodesPointers_kind_def succ
          updateASTNodesPointers_switch_def getKind_def references_def
          IfNode_updateASTNodesPointers_def)
  next
    case (ScsData x)
    with kr have "redirect M (Body x) = Inr (applyMap M (Body x))"
      by (simp_all add: redirect_keyed)
    with ScsData show ?thesis
      by (simp add: updateASTNodesPointers_def updateASTNodesPointers_kind_def succ
          updateASTNodesPointers_switch_def getKind_def references_def
          ScsNode_updateASTNodesPointers_def)
  next
    case (SequenceData x)
    with kr have "redirect_all M (NodeVec x) = Inr (map (applyMap M) (NodeVec x))"
      by (simp add: redirect_all_keyed)
    with SequenceData show ?thesis
      by (simp add: updateASTNodesPointers_def updateASTNodesPointers_kind_def succ
          updateASTNodesPointers_switch_def getKind_def references_def
          SequenceNode_updateASTNodesPointers_def)
  next
    case (SwitchData x)
    with kr have "redirect_cases M (LabelCaseVec x)
        = Inr (map (\<lambda>c. (fst c, applyMap M (snd c))) (LabelCaseVec x))"
      using redirect_cases_keyed[of "LabelCaseVec x" M] by simp
    with SwitchData show ?thesis
      by (simp add: updateASTNodesPointers_def updateASTNodesPointers_kind_def succ
          updateASTNodesPointers_switch_def getKind_def references_def
          SwitchNode_updateASTNodesPointers_def comp_def)
  next
    case (SwitchBreakData x)
    with kr have "redirect M (ParentSwitch x) = Inr (applyMap M (ParentSwitch x))"
      by (simp_all add: redirect_keyed)
    with SwitchBreakData show ?thesis
      by (simp add: updateASTNodesPointers_def updateASTNodesPointers_kind_def succ
          updateASTNodesPointers_switch_def getKind_def references_def
          SwitchBreakNode_updateASTNodesPointers_def)
  next
    case (SetData x)
    then show ?thesis
      by (simp add: updateASTNodesPointers_def updateASTNodesPointers_kind_def succ
          updateASTNodesPointers_switch_def getKind_def references_def)
  qed
qed

text \<open>
  Claim C3, as amended. Let the domain of \<open>M\<close> contain every non-null reference
  held by \<open>n\<close> (its successor and the references of its kind), and let \<open>n\<close> not be
  a \<open>ContinueNode\<close> with a computation. Then \<open>updateASTNodesPointers\<close> returns, each
  reference of the node afterwards is \<open>M\<close> applied to the reference it was, and the
  kind, origin block, name, ID and attribute fields are unchanged. If moreover no
  value of \<open>M\<close> is itself a key of \<open>M\<close>, no reference of the node afterwards is a
  key of \<open>M\<close>.
\<close>

theorem updateASTNodesPointers_redirects:
  assumes dom: "\<forall>p \<in> set (references n). p = None \<or> isKey M p"
    and cont: "\<forall>c. Data n = ContinueData c \<longrightarrow> \<not> hasComputation c"
  shows "\<exists>n'. updateASTNodesPointers M n = Inr n'
           \<and> references n' = map (applyMap M) (references n)
           \<and> getKind n' = getKind n \<and> BB n' = BB n \<and> Name n' = Name n \<and> ID n' = ID n
           \<and> attributeFields (Data n') = attributeFields (Data n)
           \<and> ((\<forall>a v. M a = Some v \<longrightarrow> \<not> isKey M v)
                \<longrightarrow> (\<forall>p \<in> set (references n'). \<not> isKey M p))"
proof -
  from updateASTNodesPointers_keyed[OF dom cont] obtain n' where
    n': "updateASTNodesPointers M n = Inr n'"
        "references n' = map (applyMap M) (references n)"
        "getKind n' = getKind n" "BB n' = BB n" "Name n' = Name n" "ID n' = ID n"
        "attributeFields (Data n') = attributeFields (Data n)"
    by blast
  have "\<forall>p \<in> set (references n'). \<not> isKey M p"
    if "\<forall>a v. M a = Some v \<longrightarrow> \<not> isKey M v"
    using applyMap_fresh[OF that] n'(2) by auto
  with n' show ?thesis by blast
qed


theorem updateASTNodesPointers_redirects_witness:
  "references \<lparr>BB = None, Name = ''if'', Successor = Some 1, ID = 7,
       Data = IfData \<lparr>Then = Some 0, Else = None, ConditionExpression = Some 3,
                      IfNode.IsWeaved = False\<rparr>\<rparr>
     = [Some 1, Some 0, None]
   \<and> isKey [0 \<mapsto> Some 10, 1 \<mapsto> Some 11] (Some 0)
   \<and> isKey [0 \<mapsto> Some 10, 1 \<mapsto> Some 11] (Some 1)
   \<and> updateASTNodesPointers [0 \<mapsto> Some 10, 1 \<mapsto> Some 11]
       \<lparr>BB = None, Name = ''if'', Successor = Some 1, ID = 7,
        Data = IfData \<lparr>Then = Some 0, Else = None, ConditionExpression = Some 3,
                       IfNode.IsWeaved = False\<rparr>\<rparr>
     = Inr \<lparr>BB = None, Name = ''if'', Successor = Some 11, ID = 7,
        Data = IfData \<lparr>Then = Some 10, Else = None, ConditionExpression = Some 3,
                       IfNode.IsWeaved = False\<rparr>\<rparr>
   \<and> \<not> isKey [0 \<mapsto> Some 10, 1 \<mapsto> Some 11] (Some 10)
   \<and> \<not> isKey [0 \<mapsto> Some 10, 1 \<mapsto> Some 11] (Some 11)"
proof -
  let ?n = "\<lparr>BB = None, Name = ''if'', Successor = Some 1, ID = 7,
       Data = IfData \<lparr>Then = Some 0, Else = None, ConditionExpression = Some 3,
                      IfNode.IsWeaved = False\<rparr>\<rparr>"
  let ?M = "[0 \<mapsto> Some 10, 1 \<mapsto> Some (11::nat)] :: ASTNodeMap"
  have h1: "\<forall>p \<in> set (references ?n). p = None \<or> isKey ?M p"
    by (simp add: references_def isKey_def)
  have h2: "\<forall>c. Data ?n = ContinueData c \<longrightarrow> \<not> hasComputation c"
    by simp
  from updateASTNodesPointers_redirects [OF h1 h2] show ?thesis
    by (simp add: references_def isKey_def updateASTNodesPointers_def
        updateASTNodesPointers_kind_def updateASTNodesPointers_switch_def getKind_def
        redirect_def map_at_def IfNode_updateASTNodesPointers_def)
qed

text \<open>
  The claim as stated concludes that no reference of the node remains a key of \<open>M\<close>.
  With \<open>M\<close> mapping 0 to 1 and 1 to 2, a code node whose successor is 0 has every
  reference in the domain of \<open>M\<close>; afterwards its successor is 1, a key of \<open>M\<close>.
  With the same map, a \<open>ContinueNode\<close> that has a computation and the successor 0
  fails the assertion of the method, so the call does not return.
\<close>

theorem updateASTNodesPointers_key_remains_counterexample:
  "references \<lparr>BB = None, Name = ''code'', Successor = Some 0, ID = 1,
       Data = CodeData \<lparr>ImplicitReturn = False\<rparr>\<rparr> = [Some 0]
   \<and> isKey [0 \<mapsto> Some 1, 1 \<mapsto> Some 2] (Some 0)
   \<and> updateASTNodesPointers [0 \<mapsto> Some 1, 1 \<mapsto> Some 2]
       \<lparr>BB = None, Name = ''code'', Successor = Some 0, ID = 1,
        Data = CodeData \<lparr>ImplicitReturn = False\<rparr>\<rparr>
     = Inr \<lparr>BB = None, Name = ''code'', Successor = Some 1, ID = 1,
        Data = CodeData \<lparr>ImplicitReturn = False\<rparr>\<rparr>
   \<and> references \<lparr>BB = None, Name = ''code'', Successor = Some 1, ID = 1,
        Data = CodeData \<lparr>ImplicitReturn = False\<rparr>\<rparr> = [Some 1]
   \<and> isKey [0 \<mapsto> Some 1, 1 \<mapsto> Some 2] (Some 1)
   \<and> references \<lparr>BB = None, Name = ''continue'', Successor = Some 0, ID = 2,
       Data = ContinueData \<lparr>ComputationIf = Some 5, IsImplicit = False\<rparr>\<rparr> = [Some 0]
   \<and> updateASTNodesPointers [0 \<mapsto> Some 1, 1 \<mapsto> Some 2]
       \<lparr>BB = None, Name = ''continue'', Successor = Some 0, ID = 2,
        Data = ContinueData \<lparr>ComputationIf = Some 5, IsImplicit = False\<rparr>\<rparr>
     = Inl AssertionFailure"
  by (simp add: references_def isKey_def updateASTNodesPointers_def
      updateASTNodesPointers_kind_def updateASTNodesPointers_switch_def getKind_def
      redirect_def map_at_def hasComputation_def)


section \<open>Dispatch over an unexpected kind\<close>

lemma NodeKind_value_range: "range NodeKind_value = {0, 1, 2, 3, 4, 5, 6, 7, 8}"
proof
  show "range NodeKind_value \<subseteq> {0, 1, 2, 3, 4, 5, 6, 7, 8}"
  proof
    fix k assume "k \<in> range NodeKind_value"
    then obtain x where "k = NodeKind_value x" by blast
    then show "k \<in> {0, 1, 2, 3, 4, 5, 6, 7, 8}" by (cases x) simp_all
  qed
next
  have "NodeKind_value NK_Code \<in> range NodeKind_value"
    "NodeKind_value NK_Break \<in> range NodeKind_value"
    "NodeKind_value NK_Continue \<in> range NodeKind_value"
    "NodeKind_value NK_If \<in> range NodeKind_value"
    "NodeKind_value NK_Scs \<in> range NodeKind_value"
    "NodeKind_value NK_List \<in> range NodeKind_value"
    "NodeKind_value NK_Switch \<in> range NodeKind_value"
    "NodeKind_value NK_SwitchBreak \<in> range NodeKind_value"
    "NodeKind_value NK_Set \<in> range NodeKind_value"
    by (rule rangeI)+
  then show "{0, 1, 2, 3, 4, 5, 6, 7, 8} \<subseteq> range NodeKind_value"
    by simp
qed

lemma redirect_not_Abort: "redirect M p \<noteq> Inl (Abort m)"
  by (auto simp: redirect_def map_at_def split: option.splits)

lemma redirect_all_not_Abort: "redirect_all M ps \<noteq> Inl (Abort m)"
  by (induction ps) (auto simp: redirect_not_Abort split: sum.splits)

lemma redirect_cases_not_Abort: "redirect_cases M cs \<noteq> Inl (Abort m)"
  by (induction cs) (auto simp: redirect_not_Abort split: sum.splits)

lemma updateASTNodesPointers_handles_every_kind:
  "updateASTNodesPointers M n \<noteq> Inl (Abort m)"
proof (cases "redirect M (Successor n)")
  case (Inl e)
  with redirect_not_Abort[of M "Successor n" m] show ?thesis
    by (auto simp: updateASTNodesPointers_def updateASTNodesPointers_kind_def)
next
  case (Inr s)
  show ?thesis
    using redirect_not_Abort[of M _ m] redirect_all_not_Abort[of M _ m]
      redirect_cases_not_Abort[of M _ m]
    by (cases "Data n")
       (auto simp: updateASTNodesPointers_def updateASTNodesPointers_kind_def Inr
         updateASTNodesPointers_switch_def getKind_def
         IfNode_updateASTNodesPointers_def ScsNode_updateASTNodesPointers_def
         SequenceNode_updateASTNodesPointers_def SwitchNode_updateASTNodesPointers_def
         SwitchBreakNode_updateASTNodesPointers_def split: sum.splits)
qed

text \<open>
  Claim C8. Constructing a \<open>SetNode\<close> from a CFG node whose dispatcher type is
  neither \<open>EntrySet\<close> nor \<open>ExitSet\<close> aborts, and for those two types it returns a
  node of kind \<open>NK_Set\<close>. The \<open>switch\<close> of \<open>updateASTNodesPointers\<close> aborts on
  every value that is not the value of a handled enumerator, so the method fails
  there, with the abort or, earlier, with the failed lookup of the successor. A
  failure is a value without a node: the abort ends the process and no caller sees
  the node whose successor had already been redirected. Every kind a node can have
  is a handled one: on a node, the method never ends in an abort.
\<close>

theorem unexpected_kind_aborts:
  "(getDispatcherType CFGNode \<noteq> EntrySet \<and> getDispatcherType CFGNode \<noteq> ExitSet \<longrightarrow>
      SetNode_ctor CFGNode S = Inl (Abort ''Unexpected DispatcherKind''))
   \<and> (getDispatcherType CFGNode = EntrySet \<or> getDispatcherType CFGNode = ExitSet \<longrightarrow>
      (\<exists>n. SetNode_ctor CFGNode S = Inr n \<and> getKind n = NK_Set))
   \<and> (K \<notin> range NodeKind_value \<longrightarrow>
      updateASTNodesPointers_switch K M n = Inl (Abort ''AST node type not expected'')
      \<and> updateASTNodesPointers_kind K M n =
          (case redirect M (Successor n) of
             Inl e \<Rightarrow> Inl e
           | Inr s \<Rightarrow> Inl (Abort ''AST node type not expected'')))
   \<and> updateASTNodesPointers M n \<noteq> Inl (Abort m)"
proof -
  have a: "updateASTNodesPointers_switch K M m = Inl (Abort ''AST node type not expected'')"
    if "K \<notin> range NodeKind_value" for m
    using that unfolding NodeKind_value_range
    by (simp add: updateASTNodesPointers_switch_def)
  show ?thesis
    using updateASTNodesPointers_handles_every_kind[of M n m]
    by (auto simp: SetNode_ctor_def Let_def ASTNode_ctor_def getKind_def a
        updateASTNodesPointers_kind_def split: sum.splits)
qed

theorem unexpected_kind_aborts_witness:
  "SetNode_ctor \<lparr>isCode = True, getOriginalNode = Some 1, getNameStr = ''bb'',
       getStateVariableValue = 0, getDispatcherType = Code,
            isWeaved = False, isDispatcher = False\<rparr> None
     = Inl (Abort ''Unexpected DispatcherKind'')
   \<and> SetNode_ctor \<lparr>isCode = False, getOriginalNode = None, getNameStr = ''set'',
       getStateVariableValue = 2, getDispatcherType = ExitSet,
            isWeaved = False, isDispatcher = False\<rparr> (Some 3)
     = Inr \<lparr>BB = None, Name = ''set'', Successor = Some 3, ID = 0,
            Data = SetData \<lparr>StateVariableValue = 2, SetNode.DKind = DK_Exit\<rparr>\<rparr>
   \<and> 9 \<notin> range NodeKind_value
   \<and> updateASTNodesPointers_kind 9 [0 \<mapsto> Some 1]
       \<lparr>BB = None, Name = ''code'', Successor = Some 0, ID = 1,
        Data = CodeData \<lparr>ImplicitReturn = False\<rparr>\<rparr>
     = Inl (Abort ''AST node type not expected'')"
  using unexpected_kind_aborts
      [of "\<lparr>isCode = True, getOriginalNode = Some 1, getNameStr = ''bb'',
            getStateVariableValue = 0, getDispatcherType = Code,
            isWeaved = False, isDispatcher = False\<rparr>" None 9
          "[0 \<mapsto> Some 1]"
          "\<lparr>BB = None, Name = ''code'', Successor = Some 0, ID = 1,
            Data = CodeData \<lparr>ImplicitReturn = False\<rparr>\<rparr>"]
  by (simp add: NodeKind_value_range SetNode_ctor_def ASTNode_ctor_def redirect_def map_at_def)

section \<open>Appending a successor chain to a sequence\<close>

lemma successorsValid_iff:
  "successorsValid h \<longleftrightarrow> (\<forall>b < length h. \<forall>c. Successor (h ! b) = Some c \<longrightarrow> c < length h)"
  unfolding successorsValid_def list_all_length
  by (auto split: option.splits)

lemma addNode_step:
  assumes "this < length h" "Data (h ! this) = SequenceData v" "a < length h"
    and "h1 = h[this := (h ! this)\<lparr>Data := SequenceData (v\<lparr>NodeVec := NodeVec v @ [Some a]\<rparr>)\<rparr>]"
  shows "addNode h this (Some a) =
     (case Successor (h1 ! a) of
        None \<Rightarrow> Inr h1
      | Some b \<Rightarrow> addNode (h1[a := (h1 ! a)\<lparr>Successor := None\<rparr>]) this (Some b))"
  using assms
  by (subst addNode.simps)
     (auto simp: lookup_def Let_def store_def getSuccessor_def consumeSuccessor_def
       split: option.splits)

lemma addNode_appends:
  "successorsValid h \<Longrightarrow> this < length h \<Longrightarrow> Data (h ! this) = SequenceData v \<Longrightarrow>
   Node = Some a \<Longrightarrow> a < length h \<Longrightarrow>
   \<exists>h' app. addNode h this Node = Inr h' \<and> length h' = length h \<and> successorsValid h'
     \<and> nodesOf h' this = NodeVec v @ Some a # app
     \<and> (\<forall>p \<in> set (Some a # app). \<exists>b. p = Some b \<and> b < length h \<and> Successor (h' ! b) = None)
     \<and> (\<forall>b < length h. Successor (h' ! b) = None \<or> Successor (h' ! b) = Successor (h ! b))
     \<and> (\<forall>b < length h. BB (h' ! b) = BB (h ! b) \<and> Name (h' ! b) = Name (h ! b)
            \<and> ID (h' ! b) = ID (h ! b) \<and> getKind (h' ! b) = getKind (h ! b)
            \<and> (b \<noteq> this \<longrightarrow> Data (h' ! b) = Data (h ! b)))"
proof (induction h this Node arbitrary: v a rule: addNode.induct)
  case (1 h this Node)
  define s' where "s' = (h ! this)\<lparr>Data := SequenceData (v\<lparr>NodeVec := NodeVec v @ [Some a]\<rparr>)\<rparr>"
  define h1 where "h1 = h[this := s']"
  have len1: "length h1 = length h" by (simp add: h1_def)
  have succ1: "Successor (h1 ! b) = Successor (h ! b)" if "b < length h" for b
    using that by (cases "b = this") (simp_all add: h1_def s'_def)
  have frame1: "BB (h1 ! b) = BB (h ! b) \<and> Name (h1 ! b) = Name (h ! b)
            \<and> ID (h1 ! b) = ID (h ! b) \<and> getKind (h1 ! b) = getKind (h ! b)
            \<and> (b \<noteq> this \<longrightarrow> Data (h1 ! b) = Data (h ! b))" if "b < length h" for b
    using "1.prems"(3) that by (cases "b = this") (simp_all add: h1_def s'_def getKind_def)
  have data1: "Data (h1 ! this) = SequenceData (v\<lparr>NodeVec := NodeVec v @ [Some a]\<rparr>)"
    using "1.prems"(2) by (simp add: h1_def s'_def)
  have valid1: "successorsValid h1"
    using "1.prems"(1) succ1 len1 by (simp add: successorsValid_iff)
  have step: "addNode h this Node =
     (case Successor (h1 ! a) of
           None \<Rightarrow> Inr h1
         | Some b \<Rightarrow> addNode (h1[a := (h1 ! a)\<lparr>Successor := None\<rparr>]) this (Some b))"
    unfolding "1.prems"(4)
    by (rule addNode_step[OF "1.prems"(2,3) "1.prems"(5)]) (simp add: h1_def s'_def)
  show ?case
  proof (cases "Successor (h1 ! a)")
    case None
    have "nodesOf h1 this = NodeVec v @ Some a # []"
      by (simp add: nodesOf_def data1)
    moreover have "\<forall>p \<in> set (Some a # []). \<exists>b. p = Some b \<and> b < length h \<and> Successor (h1 ! b) = None"
      using None "1.prems"(5) by simp
    ultimately show ?thesis
      using step None len1 valid1 succ1 frame1 by (simp only: option.case) blast
  next
    case (Some b)
    define n' where "n' = (h1 ! a)\<lparr>Successor := None\<rparr>"
    define h2 where "h2 = h1[a := n']"
    have b: "b < length h"
      using valid1 Some "1.prems"(5) len1 by (auto simp: successorsValid_iff)
    have len2: "length h2 = length h" by (simp add: h2_def len1)
    have succ2: "Successor (h2 ! c) = (if c = a then None else Successor (h ! c))"
      if "c < length h" for c
      using succ1 that by (cases "c = a") (simp_all add: h2_def n'_def len1)
    have frame2: "BB (h2 ! c) = BB (h ! c) \<and> Name (h2 ! c) = Name (h ! c)
            \<and> ID (h2 ! c) = ID (h ! c) \<and> getKind (h2 ! c) = getKind (h ! c)
            \<and> (c \<noteq> this \<longrightarrow> Data (h2 ! c) = Data (h ! c))" if "c < length h" for c
      using frame1[OF that] that
      by (cases "c = a") (simp_all add: h2_def n'_def len1 getKind_def)
    have data2: "Data (h2 ! this) = SequenceData (v\<lparr>NodeVec := NodeVec v @ [Some a]\<rparr>)"
      using data1 "1.prems"(2) by (cases "this = a") (simp_all add: h2_def n'_def len1)
    have valid2: "successorsValid h2"
      using "1.prems"(1) succ2 len2 by (simp add: successorsValid_iff)
    have lk: "lookup h (Some this) = Inr (h ! this)"
      using "1.prems"(2) by (simp add: lookup_def)
    have lk1: "lookup h1 Node = Inr (h1 ! a)"
      using "1.prems"(4,5) len1 by (simp add: lookup_def)
    have gs: "getSuccessor (h1 ! a) \<noteq> None"
      using Some by (simp add: getSuccessor_def)
    have st: "store h1 Node (snd (consumeSuccessor (h1 ! a))) = h2"
      using "1.prems"(4) by (simp add: store_def consumeSuccessor_def h2_def n'_def)
    have fs: "fst (consumeSuccessor (h1 ! a)) = Some b"
      using Some by (simp add: consumeSuccessor_def)
    have h1eq: "h1 = h[this := (h ! this)\<lparr>Data := SequenceData (v\<lparr>NodeVec := NodeVec v @ [Node]\<rparr>)\<rparr>]"
      using "1.prems"(4) by (simp add: h1_def s'_def)
    from "1.IH"[OF lk "1.prems"(3) h1eq lk1 gs, unfolded st fs, OF valid2 _ data2 refl]
      "1.prems"(2) b len2
    obtain h' app where r:
      "addNode h2 this (Some b) = Inr h'" "length h' = length h" "successorsValid h'"
      "nodesOf h' this = NodeVec (v\<lparr>NodeVec := NodeVec v @ [Some a]\<rparr>) @ Some b # app"
      "\<forall>p \<in> set (Some b # app). \<exists>c. p = Some c \<and> c < length h2 \<and> Successor (h' ! c) = None"
      "\<forall>c < length h2. Successor (h' ! c) = None \<or> Successor (h' ! c) = Successor (h2 ! c)"
      "\<forall>c < length h2. BB (h' ! c) = BB (h2 ! c) \<and> Name (h' ! c) = Name (h2 ! c)
            \<and> ID (h' ! c) = ID (h2 ! c) \<and> getKind (h' ! c) = getKind (h2 ! c)
            \<and> (c \<noteq> this \<longrightarrow> Data (h' ! c) = Data (h2 ! c))"
      by auto
    have res: "addNode h this Node = Inr h'"
      using step Some r(1) by (simp add: h2_def n'_def)
    have nodes: "nodesOf h' this = NodeVec v @ Some a # (Some b # app)"
      using r(4) by simp
    have sa: "Successor (h' ! a) = None"
      using r(6) succ2 "1.prems"(5) len2 by (metis)
    have appd: "\<forall>p \<in> set (Some a # Some b # app). \<exists>c. p = Some c \<and> c < length h \<and> Successor (h' ! c) = None"
      using r(5) sa "1.prems"(5) len2 by auto
    have mono: "\<forall>c < length h. Successor (h' ! c) = None \<or> Successor (h' ! c) = Successor (h ! c)"
      using r(6) succ2 len2 by (metis)
    have frame: "\<forall>c < length h. BB (h' ! c) = BB (h ! c) \<and> Name (h' ! c) = Name (h ! c)
            \<and> ID (h' ! c) = ID (h ! c) \<and> getKind (h' ! c) = getKind (h ! c)
            \<and> (c \<noteq> this \<longrightarrow> Data (h' ! c) = Data (h ! c))"
      using r(7) frame2 len2 by simp
    from res r(2,3) nodes appd mono frame show ?thesis by blast
  qed
qed


lemma isChain_head: "isChain h a ns \<Longrightarrow> \<exists>t. ns = a # t"
  by (induction h a ns rule: isChain.induct) auto

lemma isChain_unique: "isChain h a xs \<Longrightarrow> isChain h a ys \<Longrightarrow> xs = ys"
proof (induction h a xs arbitrary: ys rule: isChain.induct)
  case (1 h a)
  then show ?case by simp
next
  case (2 h a x)
  show ?case
  proof (cases ys)
    case Nil
    with 2 show ?thesis by simp
  next
    case (Cons y t)
    with 2 show ?thesis by (cases t) auto
  qed
next
  case (3 h a x y zs)
  from "3.prems" obtain t where ys: "ys = a # y # t" "isChain h y (y # t)"
    by (cases "(h, a, ys)" rule: isChain.cases) auto
  with "3.IH"[of "y # t"] "3.prems" show ?case by simp
qed

lemma isChain_suffix:
  "isChain h a ns \<Longrightarrow> x \<in> set ns \<Longrightarrow> \<exists>pre post. ns = pre @ x # post \<and> isChain h x (x # post)"
proof (induction h a ns rule: isChain.induct)
  case (1 h a)
  then show ?case by simp
next
  case (2 h a y)
  then have "[y] = [] @ x # [] \<and> isChain h x (x # [])" by simp
  then show ?case by blast
next
  case (3 h a y z zs)
  show ?case
  proof (cases "x = a")
    case True
    with "3.prems" have "y # z # zs = [] @ x # (z # zs) \<and> isChain h x (x # z # zs)" by simp
    then show ?thesis by blast
  next
    case False
    with "3.prems" have "x \<in> set (z # zs)" "isChain h z (z # zs)" by auto
    from "3.IH"[OF this(2,1)] obtain pre post where
      "z # zs = pre @ x # post" "isChain h x (x # post)" by blast
    then have "y # z # zs = (y # pre) @ x # post \<and> isChain h x (x # post)" by simp
    then show ?thesis by blast
  qed
qed

lemma isChain_distinct: "isChain h a ns \<Longrightarrow> distinct ns"
proof (induction h a ns rule: isChain.induct)
  case (1 h a)
  then show ?case by simp
next
  case (2 h a x)
  then show ?case by simp
next
  case (3 h a x y ys)
  then have tl: "isChain h y (y # ys)" and xa: "x = a" by simp_all
  have "a \<notin> set (y # ys)"
  proof
    assume "a \<in> set (y # ys)"
    from isChain_suffix[OF tl this] obtain pre post where
      pp: "y # ys = pre @ a # post" "isChain h a (a # post)" by blast
    from "3.prems" have "isChain h a (a # y # ys)" unfolding xa .
    from isChain_unique[OF pp(2) this] have "a # post = a # y # ys" .
    with pp(1) have "length (y # ys) = length (pre @ a # y # ys)" by simp
    then show False by simp
  qed
  with "3.IH"[OF tl] xa show ?case by simp
qed

lemma isChain_cong:
  "length g = length h \<Longrightarrow> \<forall>x \<in> set ns. Successor (g ! x) = Successor (h ! x) \<Longrightarrow>
   isChain g a ns = isChain h a ns"
  by (induction h a ns rule: isChain.induct) auto

lemma addNode_chain:
  "isChain h a ns \<Longrightarrow> this < length h \<Longrightarrow> Data (h ! this) = SequenceData v \<Longrightarrow>
   \<exists>h'. addNode h this (Some a) = Inr h' \<and> nodesOf h' this = NodeVec v @ map Some ns"
proof (induction ns arbitrary: h a v)
  case Nil
  then show ?case by simp
next
  case (Cons x ns)
  define h1 where
    "h1 = h[this := (h ! this)\<lparr>Data := SequenceData (v\<lparr>NodeVec := NodeVec v @ [Some a]\<rparr>)\<rparr>]"
  from Cons.prems(1) have xa: "x = a" and a: "a < length h"
    by (cases ns; simp)+
  have succ1: "Successor (h1 ! b) = Successor (h ! b)" if "b < length h" for b
    using that Cons.prems(2) by (cases "b = this") (simp_all add: h1_def)
  have data1: "Data (h1 ! this) = SequenceData (v\<lparr>NodeVec := NodeVec v @ [Some a]\<rparr>)"
    using Cons.prems(2) by (simp add: h1_def)
  note step = addNode_step[OF Cons.prems(2,3) a h1_def]
  show ?case
  proof (cases ns)
    case Nil
    with Cons.prems(1) have "Successor (h ! a) = None" by simp
    with succ1[OF a] have "Successor (h1 ! a) = None" by simp
    with step have "addNode h this (Some a) = Inr h1" by simp
    moreover have "nodesOf h1 this = NodeVec v @ map Some (x # ns)"
      using Nil xa data1 by (simp add: nodesOf_def)
    ultimately show ?thesis by blast
  next
    case (Cons y ys)
    with Cons.prems(1) have sy: "Successor (h ! a) = Some y" and tl: "isChain h y (y # ys)"
      by simp_all
    have dist: "a \<notin> set (y # ys)"
      using isChain_distinct[OF Cons.prems(1)] Cons xa by simp
    define h2 where "h2 = h1[a := (h1 ! a)\<lparr>Successor := None\<rparr>]"
    have len2: "length h2 = length h" by (simp add: h2_def h1_def)
    have valid: "\<forall>z \<in> set (y # ys). z < length h"
    proof
      fix z assume z: "z \<in> set (y # ys)"
      from isChain_suffix[OF tl z] obtain post where "isChain h z (z # post)" by blast
      then show "z < length h" by (cases post) simp_all
    qed
    have "\<forall>z \<in> set (y # ys). Successor (h2 ! z) = Successor (h ! z)"
    proof
      fix z assume z: "z \<in> set (y # ys)"
      with dist have "z \<noteq> a" by blast
      moreover from valid z have "z < length h" by blast
      ultimately show "Successor (h2 ! z) = Successor (h ! z)"
        using succ1 by (simp add: h2_def)
    qed
    from isChain_cong[OF len2 this] tl have tl2: "isChain h2 y (y # ys)" by simp
    have this2: "this < length h2" using Cons.prems(2) len2 by simp
    have data2: "Data (h2 ! this) = SequenceData (v\<lparr>NodeVec := NodeVec v @ [Some a]\<rparr>)"
      using data1 Cons.prems(2) a by (cases "this = a") (simp_all add: h2_def h1_def)
    from Cons.IH[OF _ this2 data2, of y] tl2 Cons obtain h' where
      "addNode h2 this (Some y) = Inr h'"
      "nodesOf h' this = NodeVec (v\<lparr>NodeVec := NodeVec v @ [Some a]\<rparr>) @ map Some (y # ys)"
      by blast
    moreover have "Successor (h1 ! a) = Some y" using succ1[OF a] sy by simp
    ultimately have "addNode h this (Some a) = Inr h'"
      "nodesOf h' this = NodeVec v @ map Some (x # ns)"
      using step Cons xa by (simp_all add: h2_def)
    then show ?thesis by blast
  qed
qed

lemma sequencing_clears_successors:
  "successorsValid h \<Longrightarrow> \<forall>p \<in> set ps. p < length h \<Longrightarrow>
   \<forall>b < length h. getSuccessor (h ! b) \<noteq> None \<longrightarrow> b \<in> set ps \<Longrightarrow>
   \<exists>h'. sequencing h ps = Inr h' \<and> (\<forall>b < length h'. getSuccessor (h' ! b) = None)"
proof (induction ps arbitrary: h)
  case Nil
  then show ?case by simp
next
  case (Cons p ps)
  from Cons.prems(2) have p: "p < length h" by simp
  show ?case
  proof (cases "getSuccessor (h ! p) = None")
    case True
    have "\<forall>b < length h. getSuccessor (h ! b) \<noteq> None \<longrightarrow> b \<in> set ps"
      using Cons.prems(3) True by auto
    from Cons.IH[OF Cons.prems(1) _ this] Cons.prems(2) True p show ?thesis
      by (simp add: lookup_def)
  next
    case False
    define h1 where "h1 = h @ [\<lparr>BB = None, Name = ''sequence'', Successor = None, ID = 0,
            Data = SequenceData \<lparr>NodeVec = []\<rparr>\<rparr>]"
    have len1: "length h1 = Suc (length h)" by (simp add: h1_def)
    have old: "h1 ! b = h ! b" if "b < length h" for b
      using that by (simp add: h1_def nth_append)
    have new: "Successor (h1 ! length h) = None"
      "Data (h1 ! length h) = SequenceData \<lparr>NodeVec = []\<rparr>"
      by (simp_all add: h1_def)
    have valid1: "successorsValid h1"
      unfolding successorsValid_iff
    proof (intro allI impI)
      fix b c assume b: "b < length h1" and c: "Successor (h1 ! b) = Some c"
      show "c < length h1"
      proof (cases "b < length h")
        case True
        with Cons.prems(1) c old[OF True] have "c < length h"
          by (auto simp: successorsValid_iff)
        then show ?thesis by (simp add: len1)
      next
        case False
        with b len1 have "b = length h" by simp
        with c new(1) show ?thesis by simp
      qed
    qed
    from addNode_appends[OF valid1 _ new(2) refl, of p] p len1
    obtain h2 app where r:
      "addNode h1 (length h) (Some p) = Inr h2" "length h2 = length h1" "successorsValid h2"
      "\<forall>q \<in> set (Some p # app). \<exists>b. q = Some b \<and> b < length h1 \<and> Successor (h2 ! b) = None"
      "\<forall>b < length h1. Successor (h2 ! b) = None \<or> Successor (h2 ! b) = Successor (h1 ! b)"
      by auto
    have sp: "Successor (h2 ! p) = None" using r(4) by simp
    have pend: "\<forall>b < length h2. getSuccessor (h2 ! b) \<noteq> None \<longrightarrow> b \<in> set ps"
    proof (intro allI impI)
      fix b assume b: "b < length h2" and nz: "getSuccessor (h2 ! b) \<noteq> None"
      from nz sp have bp: "b \<noteq> p" by (auto simp: getSuccessor_def)
      from b r(2) r(5) nz have same: "Successor (h2 ! b) = Successor (h1 ! b)"
        by (auto simp: getSuccessor_def)
      show "b \<in> set ps"
      proof (cases "b < length h")
        case True
        with same nz old[OF True] have "getSuccessor (h ! b) \<noteq> None"
          by (simp add: getSuccessor_def)
        with Cons.prems(3) True bp show ?thesis by auto
      next
        case False
        with b r(2) len1 have "b = length h" by simp
        with same new(1) nz show ?thesis by (simp add: getSuccessor_def)
      qed
    qed
    have inb: "\<forall>q \<in> set ps. q < length h2"
      using Cons.prems(2) r(2) len1 by auto
    from Cons.IH[OF r(3) inb pend] obtain h' where
      "sequencing h2 ps = Inr h'" "\<forall>b < length h'. getSuccessor (h' ! b) = None"
      by blast
    with False p r(1) show ?thesis
      by (simp add: lookup_def createEmpty_def h1_def)
  qed
qed

text \<open>
  Claim C2. In a heap whose successor pointers do not dangle, \<open>addNode\<close> on a
  sequence node and a node \<open>a\<close> returns; the children of the sequence afterwards
  are the children before, then \<open>a\<close>, then further nodes, and when the successor
  links from \<open>a\<close> form the chain \<open>ns\<close> the nodes appended are exactly \<open>ns\<close>, in
  chain order. Every appended node has a null successor afterwards. No successor is
  ever set, only cleared: if every node that held a successor before the call was
  appended, no node of the heap holds one afterwards. Nothing but the successors
  and the children of the sequence changes. Hence the sequencing traversal, which
  calls \<open>addNode\<close> on a fresh sequence for every node that holds a successor,
  returns a heap in which no node holds a successor.
\<close>

theorem addNode_consumes_chain:
  assumes "successorsValid h"
  shows "(\<forall>this v a. this < length h \<and> Data (h ! this) = SequenceData v \<and> a < length h \<longrightarrow>
     (\<exists>h' app. addNode h this (Some a) = Inr h' \<and> length h' = length h
       \<and> nodesOf h' this = NodeVec v @ Some a # app
       \<and> (\<forall>ns. isChain h a ns \<longrightarrow> Some a # app = map Some ns)
       \<and> (\<forall>p \<in> set (Some a # app).
             \<exists>b. p = Some b \<and> b < length h \<and> getSuccessor (h' ! b) = None)
       \<and> (\<forall>b < length h. getSuccessor (h' ! b) = None
             \<or> getSuccessor (h' ! b) = getSuccessor (h ! b))
       \<and> ((\<forall>b < length h. getSuccessor (h ! b) \<noteq> None \<longrightarrow> Some b \<in> set (Some a # app))
             \<longrightarrow> (\<forall>b < length h'. getSuccessor (h' ! b) = None))
       \<and> (\<forall>b < length h. getBB (h' ! b) = getBB (h ! b) \<and> Name (h' ! b) = Name (h ! b)
             \<and> getID (h' ! b) = getID (h ! b) \<and> getKind (h' ! b) = getKind (h ! b)
             \<and> (b \<noteq> this \<longrightarrow> Data (h' ! b) = Data (h ! b)))))
   \<and> (\<forall>ps. (\<forall>p \<in> set ps. p < length h)
             \<and> (\<forall>b < length h. getSuccessor (h ! b) \<noteq> None \<longrightarrow> b \<in> set ps) \<longrightarrow>
         (\<exists>h'. sequencing h ps = Inr h' \<and> (\<forall>b < length h'. getSuccessor (h' ! b) = None)))"
proof (intro conjI allI impI)
  fix this v a
  assume "this < length h \<and> Data (h ! this) = SequenceData v \<and> a < length h"
  then have args: "this < length h" "Data (h ! this) = SequenceData v" "a < length h"
    by simp_all
  from addNode_appends[OF assms args(1,2) refl args(3)] obtain h' app where r:
    "addNode h this (Some a) = Inr h'" "length h' = length h"
    "nodesOf h' this = NodeVec v @ Some a # app"
    "\<forall>p \<in> set (Some a # app). \<exists>b. p = Some b \<and> b < length h \<and> Successor (h' ! b) = None"
    "\<forall>b < length h. Successor (h' ! b) = None \<or> Successor (h' ! b) = Successor (h ! b)"
    "\<forall>b < length h. BB (h' ! b) = BB (h ! b) \<and> Name (h' ! b) = Name (h ! b)
            \<and> ID (h' ! b) = ID (h ! b) \<and> getKind (h' ! b) = getKind (h ! b)
            \<and> (b \<noteq> this \<longrightarrow> Data (h' ! b) = Data (h ! b))"
    by blast
  have chain: "Some a # app = map Some ns" if "isChain h a ns" for ns
  proof -
    from addNode_chain[OF that args(1,2)] r(1)
    have "nodesOf h' this = NodeVec v @ map Some ns" by simp
    with r(3) show ?thesis by simp
  qed
  have clean: "\<forall>b < length h'. getSuccessor (h' ! b) = None"
    if all: "\<forall>b < length h. getSuccessor (h ! b) \<noteq> None \<longrightarrow> Some b \<in> set (Some a # app)"
  proof (intro allI impI)
    fix b assume b: "b < length h'"
    show "getSuccessor (h' ! b) = None"
    proof (cases "Successor (h ! b) = None")
      case True
      with r(5) b r(2) show ?thesis by (auto simp: getSuccessor_def)
    next
      case False
      with all b r(2) have "Some b \<in> set (Some a # app)" by (simp add: getSuccessor_def)
      with r(4) show ?thesis by (auto simp: getSuccessor_def)
    qed
  qed
  from r chain clean show "\<exists>h' app. addNode h this (Some a) = Inr h' \<and> length h' = length h
       \<and> nodesOf h' this = NodeVec v @ Some a # app
       \<and> (\<forall>ns. isChain h a ns \<longrightarrow> Some a # app = map Some ns)
       \<and> (\<forall>p \<in> set (Some a # app).
             \<exists>b. p = Some b \<and> b < length h \<and> getSuccessor (h' ! b) = None)
       \<and> (\<forall>b < length h. getSuccessor (h' ! b) = None
             \<or> getSuccessor (h' ! b) = getSuccessor (h ! b))
       \<and> ((\<forall>b < length h. getSuccessor (h ! b) \<noteq> None \<longrightarrow> Some b \<in> set (Some a # app))
             \<longrightarrow> (\<forall>b < length h'. getSuccessor (h' ! b) = None))
       \<and> (\<forall>b < length h. getBB (h' ! b) = getBB (h ! b) \<and> Name (h' ! b) = Name (h ! b)
             \<and> getID (h' ! b) = getID (h ! b) \<and> getKind (h' ! b) = getKind (h ! b)
             \<and> (b \<noteq> this \<longrightarrow> Data (h' ! b) = Data (h ! b)))"
    unfolding getSuccessor_def getBB_def getID_def by blast
next
  fix ps
  assume "(\<forall>p \<in> set ps. p < length h)
             \<and> (\<forall>b < length h. getSuccessor (h ! b) \<noteq> None \<longrightarrow> b \<in> set ps)"
  then show "\<exists>h'. sequencing h ps = Inr h' \<and> (\<forall>b < length h'. getSuccessor (h' ! b) = None)"
    using sequencing_clears_successors[OF assms, of ps] by blast
qed

theorem addNode_consumes_chain_witness:
  "successorsValid
     [\<lparr>BB = None, Name = ''sequence'', Successor = None, ID = 0,
        Data = SequenceData \<lparr>NodeVec = []\<rparr>\<rparr>,
      \<lparr>BB = Some 10, Name = ''a'', Successor = Some 2, ID = 1,
        Data = CodeData \<lparr>ImplicitReturn = False\<rparr>\<rparr>,
      \<lparr>BB = Some 11, Name = ''b'', Successor = Some 3, ID = 2,
        Data = BreakData \<lparr>BreakFromWithinSwitch = False\<rparr>\<rparr>,
      \<lparr>BB = Some 12, Name = ''c'', Successor = None, ID = 3,
        Data = CodeData \<lparr>ImplicitReturn = False\<rparr>\<rparr>]
   \<and> isChain
     [\<lparr>BB = None, Name = ''sequence'', Successor = None, ID = 0,
        Data = SequenceData \<lparr>NodeVec = []\<rparr>\<rparr>,
      \<lparr>BB = Some 10, Name = ''a'', Successor = Some 2, ID = 1,
        Data = CodeData \<lparr>ImplicitReturn = False\<rparr>\<rparr>,
      \<lparr>BB = Some 11, Name = ''b'', Successor = Some 3, ID = 2,
        Data = BreakData \<lparr>BreakFromWithinSwitch = False\<rparr>\<rparr>,
      \<lparr>BB = Some 12, Name = ''c'', Successor = None, ID = 3,
        Data = CodeData \<lparr>ImplicitReturn = False\<rparr>\<rparr>] 1 [1, 2, 3]
   \<and> addNode
     [\<lparr>BB = None, Name = ''sequence'', Successor = None, ID = 0,
        Data = SequenceData \<lparr>NodeVec = []\<rparr>\<rparr>,
      \<lparr>BB = Some 10, Name = ''a'', Successor = Some 2, ID = 1,
        Data = CodeData \<lparr>ImplicitReturn = False\<rparr>\<rparr>,
      \<lparr>BB = Some 11, Name = ''b'', Successor = Some 3, ID = 2,
        Data = BreakData \<lparr>BreakFromWithinSwitch = False\<rparr>\<rparr>,
      \<lparr>BB = Some 12, Name = ''c'', Successor = None, ID = 3,
        Data = CodeData \<lparr>ImplicitReturn = False\<rparr>\<rparr>] 0 (Some 1)
     = Inr
     [\<lparr>BB = None, Name = ''sequence'', Successor = None, ID = 0,
        Data = SequenceData \<lparr>NodeVec = [Some 1, Some 2, Some 3]\<rparr>\<rparr>,
      \<lparr>BB = Some 10, Name = ''a'', Successor = None, ID = 1,
        Data = CodeData \<lparr>ImplicitReturn = False\<rparr>\<rparr>,
      \<lparr>BB = Some 11, Name = ''b'', Successor = None, ID = 2,
        Data = BreakData \<lparr>BreakFromWithinSwitch = False\<rparr>\<rparr>,
      \<lparr>BB = Some 12, Name = ''c'', Successor = None, ID = 3,
        Data = CodeData \<lparr>ImplicitReturn = False\<rparr>\<rparr>]
   \<and> sequencing
     [\<lparr>BB = None, Name = ''sequence'', Successor = None, ID = 0,
        Data = SequenceData \<lparr>NodeVec = []\<rparr>\<rparr>,
      \<lparr>BB = Some 10, Name = ''a'', Successor = Some 2, ID = 1,
        Data = CodeData \<lparr>ImplicitReturn = False\<rparr>\<rparr>,
      \<lparr>BB = Some 11, Name = ''b'', Successor = Some 3, ID = 2,
        Data = BreakData \<lparr>BreakFromWithinSwitch = False\<rparr>\<rparr>,
      \<lparr>BB = Some 12, Name = ''c'', Successor = None, ID = 3,
        Data = CodeData \<lparr>ImplicitReturn = False\<rparr>\<rparr>] [0, 1, 2, 3]
     = Inr
     [\<lparr>BB = None, Name = ''sequence'', Successor = None, ID = 0,
        Data = SequenceData \<lparr>NodeVec = []\<rparr>\<rparr>,
      \<lparr>BB = Some 10, Name = ''a'', Successor = None, ID = 1,
        Data = CodeData \<lparr>ImplicitReturn = False\<rparr>\<rparr>,
      \<lparr>BB = Some 11, Name = ''b'', Successor = None, ID = 2,
        Data = BreakData \<lparr>BreakFromWithinSwitch = False\<rparr>\<rparr>,
      \<lparr>BB = Some 12, Name = ''c'', Successor = None, ID = 3,
        Data = CodeData \<lparr>ImplicitReturn = False\<rparr>\<rparr>,
      \<lparr>BB = None, Name = ''sequence'', Successor = None, ID = 0,
        Data = SequenceData \<lparr>NodeVec = [Some 1, Some 2, Some 3]\<rparr>\<rparr>]"
proof -
  let ?h = "[\<lparr>BB = None, Name = ''sequence'', Successor = None, ID = 0,
        Data = SequenceData \<lparr>NodeVec = []\<rparr>\<rparr>,
      \<lparr>BB = Some 10, Name = ''a'', Successor = Some 2, ID = 1,
        Data = CodeData \<lparr>ImplicitReturn = False\<rparr>\<rparr>,
      \<lparr>BB = Some 11, Name = ''b'', Successor = Some 3, ID = 2,
        Data = BreakData \<lparr>BreakFromWithinSwitch = False\<rparr>\<rparr>,
      \<lparr>BB = Some 12, Name = ''c'', Successor = None, ID = 3,
        Data = CodeData \<lparr>ImplicitReturn = False\<rparr>\<rparr>]"
  have v: "successorsValid ?h" by (simp add: successorsValid_def)
  have c: "isChain ?h 1 [1, 2, 3]" by simp
  from addNode_consumes_chain [OF v] v c show ?thesis
    by (simp add: addNode.simps lookup_def store_def getSuccessor_def consumeSuccessor_def
        createEmpty_def)
qed

section \<open>Cloning a node\<close>

lemma Clone_valid:
  "a < length h \<Longrightarrow> Clone h (Some a) = Inr (h @ [h ! a], Some (length h))"
  by (cases "getKind (h ! a)") (simp_all add: Clone_def lookup_def copy_new_def)

text \<open>
  Claim C6, as amended. \<open>Clone\<close> of a valid node returns a new node, allocated
  after every node in use, that is a member-by-member copy of the original: the
  same kind, origin block, name, successor, ID and subclass part, so every child
  pointer of the copy is the child pointer of the original. The nodes already
  allocated are untouched. \<open>Clone\<close> returns the pointer to the copy and nothing
  else.
\<close>

theorem Clone_shallow_copy:
  assumes "a < length h"
  shows "Clone h (Some a) = Inr (h @ [h ! a], Some (length h))
     \<and> (h @ [h ! a]) ! length h = h ! a
     \<and> getID ((h @ [h ! a]) ! length h) = getID (h ! a)
     \<and> getKind ((h @ [h ! a]) ! length h) = getKind (h ! a)
     \<and> getSuccessor ((h @ [h ! a]) ! length h) = getSuccessor (h ! a)
     \<and> childPointers (Data ((h @ [h ! a]) ! length h)) = childPointers (Data (h ! a))
     \<and> references ((h @ [h ! a]) ! length h) = references (h ! a)
     \<and> (\<forall>b < length h. (h @ [h ! a]) ! b = h ! b)"
proof -
  have new: "(h @ [h ! a]) ! length h = h ! a" by simp
  have old: "\<forall>b < length h. (h @ [h ! a]) ! b = h ! b" by (simp add: nth_append)
  from Clone_valid[OF assms] new old show ?thesis by simp
qed

theorem Clone_shallow_copy_witness:
  "Clone
     [\<lparr>BB = None, Name = ''sequence'', Successor = Some 2, ID = 3,
        Data = SequenceData \<lparr>NodeVec = [Some 1]\<rparr>\<rparr>,
      \<lparr>BB = Some 21, Name = ''a'', Successor = None, ID = 4,
        Data = CodeData \<lparr>ImplicitReturn = True\<rparr>\<rparr>,
      \<lparr>BB = Some 22, Name = ''b'', Successor = None, ID = 5,
        Data = BreakData \<lparr>BreakFromWithinSwitch = False\<rparr>\<rparr>] (Some 1)
     = Inr
     ([\<lparr>BB = None, Name = ''sequence'', Successor = Some 2, ID = 3,
        Data = SequenceData \<lparr>NodeVec = [Some 1]\<rparr>\<rparr>,
      \<lparr>BB = Some 21, Name = ''a'', Successor = None, ID = 4,
        Data = CodeData \<lparr>ImplicitReturn = True\<rparr>\<rparr>,
      \<lparr>BB = Some 22, Name = ''b'', Successor = None, ID = 5,
        Data = BreakData \<lparr>BreakFromWithinSwitch = False\<rparr>\<rparr>,
      \<lparr>BB = Some 21, Name = ''a'', Successor = None, ID = 4,
        Data = CodeData \<lparr>ImplicitReturn = True\<rparr>\<rparr>], Some 3)"
proof -
  let ?h = "[\<lparr>BB = None, Name = ''sequence'', Successor = Some 2, ID = 3,
        Data = SequenceData \<lparr>NodeVec = [Some 1]\<rparr>\<rparr>,
      \<lparr>BB = Some 21, Name = ''a'', Successor = None, ID = 4,
        Data = CodeData \<lparr>ImplicitReturn = True\<rparr>\<rparr>,
      \<lparr>BB = Some 22, Name = ''b'', Successor = None, ID = 5,
        Data = BreakData \<lparr>BreakFromWithinSwitch = False\<rparr>\<rparr>]"
  have a: "1 < length ?h" by simp
  from Clone_shallow_copy [OF a] show ?thesis by simp
qed

text \<open>
  The claim as stated has every child duplicated, the copy given a fresh ID and an
  old-to-new map produced. The clone of a sequence with ID 3 and children 1 and 2
  is a node with ID 3 and the same children 1 and 2, and the result is the new heap
  and one pointer.
\<close>

theorem Clone_keeps_ID_counterexample:
  "Clone
     [\<lparr>BB = None, Name = ''sequence'', Successor = None, ID = 3,
        Data = SequenceData \<lparr>NodeVec = [Some 1, Some 2]\<rparr>\<rparr>,
      \<lparr>BB = Some 21, Name = ''a'', Successor = None, ID = 4,
        Data = CodeData \<lparr>ImplicitReturn = False\<rparr>\<rparr>,
      \<lparr>BB = Some 22, Name = ''b'', Successor = None, ID = 5,
        Data = BreakData \<lparr>BreakFromWithinSwitch = False\<rparr>\<rparr>] (Some 0)
     = Inr
     ([\<lparr>BB = None, Name = ''sequence'', Successor = None, ID = 3,
        Data = SequenceData \<lparr>NodeVec = [Some 1, Some 2]\<rparr>\<rparr>,
      \<lparr>BB = Some 21, Name = ''a'', Successor = None, ID = 4,
        Data = CodeData \<lparr>ImplicitReturn = False\<rparr>\<rparr>,
      \<lparr>BB = Some 22, Name = ''b'', Successor = None, ID = 5,
        Data = BreakData \<lparr>BreakFromWithinSwitch = False\<rparr>\<rparr>,
      \<lparr>BB = None, Name = ''sequence'', Successor = None, ID = 3,
        Data = SequenceData \<lparr>NodeVec = [Some 1, Some 2]\<rparr>\<rparr>], Some 3)
   \<and> getID \<lparr>BB = None, Name = ''sequence'', Successor = None, ID = 3,
        Data = SequenceData \<lparr>NodeVec = [Some 1, Some 2]\<rparr>\<rparr> = 3
   \<and> childPointers (SequenceData \<lparr>NodeVec = [Some 1, Some 2]\<rparr>) = [Some 1, Some 2]"
  by (simp add: Clone_def lookup_def copy_new_def getKind_def getID_def)

section \<open>Structural equality and cloning\<close>

lemma wellFormed_mono: "wellFormed d h p \<Longrightarrow> d \<le> e \<Longrightarrow> wellFormed e h p"
proof (induction d arbitrary: e p)
  case 0
  then show ?case by (cases p) simp_all
next
  case (Suc d)
  show ?case
  proof (cases p)
    case None
    then show ?thesis by simp
  next
    case (Some a)
    from Suc.prems(2) obtain e' where e: "e = Suc e'" "d \<le> e'" by (cases e) simp_all
    from Suc.prems(1) Some have a: "a < length h"
      and ch: "list_all (wellFormed d h) (childPointers (Data (h ! a)))" by simp_all
    from ch Suc.IH e(2) have "list_all (wellFormed e' h) (childPointers (Data (h ! a)))"
      by (simp add: list_all_iff)
    with a Some e(1) show ?thesis by simp
  qed
qed

lemma wellFormed_append: "wellFormed d h p \<Longrightarrow> wellFormed d (h @ xs) p"
proof (induction d arbitrary: p)
  case 0
  then show ?case by (cases p) simp_all
next
  case (Suc d)
  show ?case
  proof (cases p)
    case None
    then show ?thesis by simp
  next
    case (Some a)
    with Suc.prems have a: "a < length h"
      and ch: "list_all (wellFormed d h) (childPointers (Data (h ! a)))" by simp_all
    from ch Suc.IH have "list_all (wellFormed d (h @ xs)) (childPointers (Data (h ! a)))"
      by (simp add: list_all_iff)
    with a Some show ?thesis by (simp add: nth_append)
  qed
qed

lemma childrenAreEqual_refl:
  "\<forall>p \<in> set ps. childIsEqual eq p p = Some True \<Longrightarrow> childrenAreEqual eq ps ps = Some True"
  by (induction ps) simp_all

lemma dyn_cast_or_null_valid:
  "b < length h \<Longrightarrow>
   dyn_cast_or_null K h (Some b) = (if getKind (h ! b) = K then Some (Some (h ! b)) else Some None)"
  by (simp add: dyn_cast_or_null_def)

lemma isEqual_same_Data:
  "wellFormed d h (Some a) \<Longrightarrow> c < length h \<Longrightarrow> Data (h ! c) = Data (h ! a) \<Longrightarrow>
   isEqual d h c (Some a) = Some True"
proof (induction d arbitrary: a c)
  case 0
  then show ?case by simp
next
  case (Suc d)
  from Suc.prems have a: "a < length h"
    and ch: "list_all (wellFormed d h) (childPointers (Data (h ! a)))" by simp_all
  have refl: "childIsEqual (isEqual d h) p p = Some True"
    if "p \<in> set (childPointers (Data (h ! a)))" for p
  proof (cases p)
    case None
    then show ?thesis by (simp add: childIsEqual_def)
  next
    case (Some b)
    with ch that have wf: "wellFormed d h (Some b)" by (simp add: list_all_iff)
    then have "b < length h" by (cases d) simp_all
    from Suc.IH[OF wf this refl] Some show ?thesis by (simp add: childIsEqual_def)
  qed
  then have all: "childrenAreEqual (isEqual d h) (childPointers (Data (h ! a)))
      (childPointers (Data (h ! a))) = Some True"
    by (simp add: childrenAreEqual_refl)
  show ?case
  proof (cases "Data (h ! a)")
    case (CodeData x)
    with Suc.prems(2,3) a show ?thesis
      by (simp add: CodeNode_nodeIsEqual_def dyn_cast_or_null_valid getKind_def)
  next
    case (BreakData x)
    with Suc.prems(2,3) a show ?thesis
      by (simp add: BreakNode_nodeIsEqual_def dyn_cast_or_null_valid getKind_def)
  next
    case (ContinueData x)
    with Suc.prems(2,3) a show ?thesis
      by (simp add: ContinueNode_nodeIsEqual_def dyn_cast_or_null_valid getKind_def)
  next
    case (IfData x)
    with Suc.prems(2,3) a all show ?thesis
      by (simp add: IfNode_nodeIsEqual_def dyn_cast_or_null_valid getKind_def)
  next
    case (ScsData x)
    with Suc.prems(2,3) a all show ?thesis
      by (simp add: ScsNode_nodeIsEqual_def dyn_cast_or_null_valid getKind_def)
  next
    case (SequenceData x)
    with Suc.prems(2,3) a all show ?thesis
      by (simp add: SequenceNode_nodeIsEqual_def dyn_cast_or_null_valid getKind_def)
  next
    case (SwitchData x)
    with Suc.prems(2,3) a all show ?thesis
      by (simp add: SwitchNode_nodeIsEqual_def dyn_cast_or_null_valid getKind_def)
  next
    case (SwitchBreakData x)
    with Suc.prems(2,3) a show ?thesis
      by (simp add: SwitchBreakNode_nodeIsEqual_def dyn_cast_or_null_valid getKind_def)
  next
    case (SetData x)
    with Suc.prems(2,3) a show ?thesis
      by (simp add: SetNode_nodeIsEqual_def dyn_cast_or_null_valid getKind_def)
  qed
qed

lemma isEqual_null:
  "a < length h \<Longrightarrow> isEqual (Suc d) h a None = Some False"
  by (cases "Data (h ! a)")
     (simp_all add: dyn_cast_or_null_def CodeNode_nodeIsEqual_def BreakNode_nodeIsEqual_def
        ContinueNode_nodeIsEqual_def IfNode_nodeIsEqual_def ScsNode_nodeIsEqual_def
        SequenceNode_nodeIsEqual_def SwitchNode_nodeIsEqual_def SwitchBreakNode_nodeIsEqual_def
        SetNode_nodeIsEqual_def)

lemma isEqual_unfold:
  assumes "a < length h" and "b < length h"
  shows "isEqual (Suc d) h a (Some b) =
     (if getKind (h ! a) \<noteq> getKind (h ! b) then Some False
      else if attributeFields (Data (h ! a)) \<noteq> attributeFields (Data (h ! b)) then Some False
      else childrenAreEqual (isEqual d h) (childPointers (Data (h ! a)))
             (childPointers (Data (h ! b))))"
proof (cases "Data (h ! a)")
  case (CodeData x)
  with assms show ?thesis
    by (cases "Data (h ! b)")
       (simp_all add: CodeNode_nodeIsEqual_def dyn_cast_or_null_valid getKind_def)
next
  case (BreakData x)
  with assms show ?thesis
    by (cases "Data (h ! b)")
       (simp_all add: BreakNode_nodeIsEqual_def dyn_cast_or_null_valid getKind_def)
next
  case (ContinueData x)
  with assms show ?thesis
    by (cases "Data (h ! b)")
       (simp_all add: ContinueNode_nodeIsEqual_def dyn_cast_or_null_valid getKind_def)
next
  case (IfData x)
  with assms show ?thesis
    by (cases "Data (h ! b)")
       (simp_all add: IfNode_nodeIsEqual_def dyn_cast_or_null_valid getKind_def)
next
  case (ScsData x)
  with assms show ?thesis
    by (cases "Data (h ! b)")
       (simp_all add: ScsNode_nodeIsEqual_def dyn_cast_or_null_valid getKind_def)
next
  case (SequenceData x)
  with assms show ?thesis
    by (cases "Data (h ! b)")
       (simp_all add: SequenceNode_nodeIsEqual_def dyn_cast_or_null_valid getKind_def)
next
  case (SwitchData x)
  with assms show ?thesis
    by (cases "Data (h ! b)")
       (auto simp add: SwitchNode_nodeIsEqual_def dyn_cast_or_null_valid getKind_def)
next
  case (SwitchBreakData x)
  with assms show ?thesis
    by (cases "Data (h ! b)")
       (simp_all add: SwitchBreakNode_nodeIsEqual_def dyn_cast_or_null_valid getKind_def)
next
  case (SetData x)
  with assms show ?thesis
    by (cases "Data (h ! b)")
       (auto simp add: SetNode_nodeIsEqual_def dyn_cast_or_null_valid getKind_def)
qed

lemma andThen_eq_True: "andThen x y = Some True \<longleftrightarrow> x = Some True \<and> y = Some True"
  by (cases "(x, y)" rule: andThen.cases) auto

lemma childrenAreEqual_True:
  "childrenAreEqual eq ps qs = Some True
     \<longleftrightarrow> list_all2 (\<lambda>p q. childIsEqual eq p q = Some True) ps qs"
  by (induction eq ps qs rule: childrenAreEqual.induct) (simp_all add: andThen_eq_True)

lemma childrenAreEqual_total:
  "\<forall>p \<in> set ps. \<forall>q \<in> set qs. \<exists>r. childIsEqual eq p q = Some r \<Longrightarrow>
   \<exists>r. childrenAreEqual eq ps qs = Some r"
proof (induction eq ps qs rule: childrenAreEqual.induct)
  case (2 eq p ps q qs)
  then obtain r where r: "childIsEqual eq p q = Some r" by auto
  from 2 obtain r' where "childrenAreEqual eq ps qs = Some r'" by auto
  with r show ?case by (cases r) auto
qed auto

lemma isEqual_total:
  "wellFormed d h (Some a) \<Longrightarrow> wellFormed d h q \<Longrightarrow> \<exists>r. isEqual d h a q = Some r"
proof (induction d arbitrary: a q)
  case 0
  then show ?case by simp
next
  case (Suc d)
  from Suc.prems(1) have a: "a < length h"
    and cha: "list_all (wellFormed d h) (childPointers (Data (h ! a)))" by simp_all
  show ?case
  proof (cases q)
    case None
    from isEqual_null[OF a, of d] show ?thesis unfolding None by (intro exI[of _ False])
  next
    case (Some b)
    with Suc.prems(2) have b: "b < length h"
      and chb: "list_all (wellFormed d h) (childPointers (Data (h ! b)))" by simp_all
    have "\<exists>r. childIsEqual (isEqual d h) p q' = Some r"
      if "p \<in> set (childPointers (Data (h ! a)))" "q' \<in> set (childPointers (Data (h ! b)))"
      for p q'
    proof (cases p)
      case None
      then show ?thesis by (simp add: childIsEqual_def)
    next
      case (Some a')
      from that cha chb have "wellFormed d h p" "wellFormed d h q'"
        by (simp_all add: list_all_iff)
      with Suc.IH[of a' q'] Some show ?thesis by (simp add: childIsEqual_def)
    qed
    then have "\<exists>r. childrenAreEqual (isEqual d h) (childPointers (Data (h ! a)))
        (childPointers (Data (h ! b))) = Some r"
      by (intro childrenAreEqual_total) blast
    then show ?thesis
      unfolding Some isEqual_unfold[OF a b] by auto
  qed
qed

lemma relabel_nth:
  "a < length h \<Longrightarrow> Data (relabel f g h ! a) = Data (h ! a)"
  "a < length h \<Longrightarrow> getKind (relabel f g h ! a) = getKind (h ! a)"
  "length (relabel f g h) = length h"
  by (simp_all add: relabel_def getKind_def)

lemma isEqual_relabel: "isEqual d (relabel f g h) a q = isEqual d h a q"
proof (induction d arbitrary: a q)
  case 0
  then show ?case by simp
next
  case (Suc d)
  then have rec: "isEqual d (relabel f g h) = isEqual d h" by (intro ext)
  show ?case
  proof (cases "a < length h")
    case False
    then show ?thesis by (simp add: relabel_nth)
  next
    case a: True
    show ?thesis
    proof (cases q)
      case None
      from a have "a < length (relabel f g h)" by (simp add: relabel_nth)
      from isEqual_null[OF this, of d] isEqual_null[OF a, of d] show ?thesis
        unfolding None by (simp only:)
    next
      case (Some b)
      show ?thesis
      proof (cases "b < length h")
        case True
        with a show ?thesis
          unfolding Some
          by (simp add: isEqual_unfold relabel_nth rec del: isEqual.simps)
      next
        case False
        with a show ?thesis
          unfolding Some
          by (cases "Data (h ! a)")
             (simp_all add: relabel_nth dyn_cast_or_null_def CodeNode_nodeIsEqual_def
               BreakNode_nodeIsEqual_def
               ContinueNode_nodeIsEqual_def IfNode_nodeIsEqual_def ScsNode_nodeIsEqual_def
               SequenceNode_nodeIsEqual_def SwitchNode_nodeIsEqual_def
               SwitchBreakNode_nodeIsEqual_def SetNode_nodeIsEqual_def)
      qed
    qed
  qed
qed

lemma wellFormed_same_Data:
  "wellFormed d h (Some a) \<Longrightarrow> c < length h \<Longrightarrow> Data (h ! c) = Data (h ! a) \<Longrightarrow>
   wellFormed d h (Some c)"
  by (cases d) simp_all

text \<open>
  Claim C1, as amended. For a valid node \<open>a\<close> whose children form a tree of valid
  pointers of height at most \<open>d\<close>, \<open>Clone\<close> returns a node \<open>c\<close> with
  \<open>isEqual\<close> of \<open>c\<close> and \<open>a\<close> true, for every fuel of at least \<open>d\<close>. The node
  \<open>c\<close> is new: it differs from \<open>a\<close> and from every node allocated before, and
  those are unchanged. It shares with \<open>a\<close> every node that \<open>a\<close> links to: each
  valid child or successor of \<open>a\<close> is reachable both from \<open>c\<close> and from \<open>a\<close>.
\<close>

theorem Clone_isEqual:
  assumes "a < length h" and "wellFormed d h (Some a)"
  shows "\<exists>h' c. Clone h (Some a) = Inr (h', Some c)
     \<and> (\<forall>fuel \<ge> d. isEqual fuel h' c (Some a) = Some True)
     \<and> c \<noteq> a \<and> \<not> c < length h \<and> c < length h'
     \<and> (\<forall>b < length h. h' ! b = h ! b)
     \<and> (\<forall>b < length h. Some b \<in> set (Successor (h ! a) # childPointers (Data (h ! a)))
           \<longrightarrow> reachable h' c b \<and> reachable h' a b)"
proof -
  define h' where "h' = h @ [h ! a]"
  have cl: "Clone h (Some a) = Inr (h', Some (length h))"
    using Clone_valid[OF assms(1)] by (simp add: h'_def)
  have old: "h' ! b = h ! b" if "b < length h" for b
    using that by (simp add: h'_def nth_append)
  have new: "h' ! length h = h ! a" by (simp add: h'_def)
  have len: "length h < length h'" by (simp add: h'_def)
  have wf: "wellFormed d h' (Some a)"
    using wellFormed_append[OF assms(2)] by (simp add: h'_def)
  have eq: "\<forall>fuel \<ge> d. isEqual fuel h' (length h) (Some a) = Some True"
    using isEqual_same_Data[OF wellFormed_mono[OF wf] len] new old[OF assms(1)] by simp
  have shared: "reachable h' (length h) b \<and> reachable h' a b"
    if b: "b < length h" "Some b \<in> set (Successor (h ! a) # childPointers (Data (h ! a)))" for b
  proof
    have "reachable h' (length h) (length h)" using len by (rule reachable.root)
    then show "reachable h' (length h) b"
      by (rule reachable.link) (use b new len in simp_all)
    have "reachable h' a a" using assms(1) len by (intro reachable.root) simp
    then show "reachable h' a b"
      by (rule reachable.link) (use b old[OF assms(1)] len in simp_all)
  qed
  from cl eq assms(1) len old shared show ?thesis by blast
qed

theorem Clone_isEqual_witness:
  "wellFormed (Suc (Suc 0))
     [\<lparr>BB = Some 20, Name = ''if'', Successor = None, ID = 7,
        Data = IfData \<lparr>Then = Some 1, Else = None, ConditionExpression = Some 5,
                       IfNode.IsWeaved = False\<rparr>\<rparr>,
      \<lparr>BB = Some 21, Name = ''then'', Successor = None, ID = 8,
        Data = CodeData \<lparr>ImplicitReturn = False\<rparr>\<rparr>] (Some 0)
   \<and> Clone
     [\<lparr>BB = Some 20, Name = ''if'', Successor = None, ID = 7,
        Data = IfData \<lparr>Then = Some 1, Else = None, ConditionExpression = Some 5,
                       IfNode.IsWeaved = False\<rparr>\<rparr>,
      \<lparr>BB = Some 21, Name = ''then'', Successor = None, ID = 8,
        Data = CodeData \<lparr>ImplicitReturn = False\<rparr>\<rparr>] (Some 0)
     = Inr
     ([\<lparr>BB = Some 20, Name = ''if'', Successor = None, ID = 7,
        Data = IfData \<lparr>Then = Some 1, Else = None, ConditionExpression = Some 5,
                       IfNode.IsWeaved = False\<rparr>\<rparr>,
      \<lparr>BB = Some 21, Name = ''then'', Successor = None, ID = 8,
        Data = CodeData \<lparr>ImplicitReturn = False\<rparr>\<rparr>,
      \<lparr>BB = Some 20, Name = ''if'', Successor = None, ID = 7,
        Data = IfData \<lparr>Then = Some 1, Else = None, ConditionExpression = Some 5,
                       IfNode.IsWeaved = False\<rparr>\<rparr>], Some 2)
   \<and> isEqual (Suc (Suc 0))
     [\<lparr>BB = Some 20, Name = ''if'', Successor = None, ID = 7,
        Data = IfData \<lparr>Then = Some 1, Else = None, ConditionExpression = Some 5,
                       IfNode.IsWeaved = False\<rparr>\<rparr>,
      \<lparr>BB = Some 21, Name = ''then'', Successor = None, ID = 8,
        Data = CodeData \<lparr>ImplicitReturn = False\<rparr>\<rparr>,
      \<lparr>BB = Some 20, Name = ''if'', Successor = None, ID = 7,
        Data = IfData \<lparr>Then = Some 1, Else = None, ConditionExpression = Some 5,
                       IfNode.IsWeaved = False\<rparr>\<rparr>] 2 (Some 0) = Some True"
proof -
  let ?h = "[\<lparr>BB = Some 20, Name = ''if'', Successor = None, ID = 7,
        Data = IfData \<lparr>Then = Some 1, Else = None, ConditionExpression = Some 5,
                       IfNode.IsWeaved = False\<rparr>\<rparr>,
      \<lparr>BB = Some 21, Name = ''then'', Successor = None, ID = 8,
        Data = CodeData \<lparr>ImplicitReturn = False\<rparr>\<rparr>]"
  have a: "0 < length ?h" by simp
  have wf: "wellFormed (Suc (Suc 0)) ?h (Some 0)" by simp
  from Clone_isEqual [OF a wf] wf Clone_valid [OF a] show ?thesis
    by auto
qed

text \<open>
  The claim as stated has no node reachable from the clone identical to a node
  reachable from the original. The clone of an \<open>IfNode\<close> whose \<open>Then\<close> is node 1
  has node 1 as its \<open>Then\<close>: node 1 is reachable from the clone (node 2) and from
  the original (node 0).
\<close>

theorem Clone_shares_children_counterexample:
  "Clone
     [\<lparr>BB = Some 20, Name = ''if'', Successor = None, ID = 7,
        Data = IfData \<lparr>Then = Some 1, Else = None, ConditionExpression = Some 5,
                       IfNode.IsWeaved = False\<rparr>\<rparr>,
      \<lparr>BB = Some 21, Name = ''then'', Successor = None, ID = 8,
        Data = CodeData \<lparr>ImplicitReturn = False\<rparr>\<rparr>] (Some 0)
     = Inr
     ([\<lparr>BB = Some 20, Name = ''if'', Successor = None, ID = 7,
        Data = IfData \<lparr>Then = Some 1, Else = None, ConditionExpression = Some 5,
                       IfNode.IsWeaved = False\<rparr>\<rparr>,
      \<lparr>BB = Some 21, Name = ''then'', Successor = None, ID = 8,
        Data = CodeData \<lparr>ImplicitReturn = False\<rparr>\<rparr>,
      \<lparr>BB = Some 20, Name = ''if'', Successor = None, ID = 7,
        Data = IfData \<lparr>Then = Some 1, Else = None, ConditionExpression = Some 5,
                       IfNode.IsWeaved = False\<rparr>\<rparr>], Some 2)
   \<and> reachable
     [\<lparr>BB = Some 20, Name = ''if'', Successor = None, ID = 7,
        Data = IfData \<lparr>Then = Some 1, Else = None, ConditionExpression = Some 5,
                       IfNode.IsWeaved = False\<rparr>\<rparr>,
      \<lparr>BB = Some 21, Name = ''then'', Successor = None, ID = 8,
        Data = CodeData \<lparr>ImplicitReturn = False\<rparr>\<rparr>,
      \<lparr>BB = Some 20, Name = ''if'', Successor = None, ID = 7,
        Data = IfData \<lparr>Then = Some 1, Else = None, ConditionExpression = Some 5,
                       IfNode.IsWeaved = False\<rparr>\<rparr>] 2 1
   \<and> reachable
     [\<lparr>BB = Some 20, Name = ''if'', Successor = None, ID = 7,
        Data = IfData \<lparr>Then = Some 1, Else = None, ConditionExpression = Some 5,
                       IfNode.IsWeaved = False\<rparr>\<rparr>,
      \<lparr>BB = Some 21, Name = ''then'', Successor = None, ID = 8,
        Data = CodeData \<lparr>ImplicitReturn = False\<rparr>\<rparr>,
      \<lparr>BB = Some 20, Name = ''if'', Successor = None, ID = 7,
        Data = IfData \<lparr>Then = Some 1, Else = None, ConditionExpression = Some 5,
                       IfNode.IsWeaved = False\<rparr>\<rparr>] 0 1"
proof -
  let ?h' = "[\<lparr>BB = Some 20, Name = ''if'', Successor = None, ID = 7,
        Data = IfData \<lparr>Then = Some 1, Else = None, ConditionExpression = Some 5,
                       IfNode.IsWeaved = False\<rparr>\<rparr>,
      \<lparr>BB = Some 21, Name = ''then'', Successor = None, ID = 8,
        Data = CodeData \<lparr>ImplicitReturn = False\<rparr>\<rparr>,
      \<lparr>BB = Some 20, Name = ''if'', Successor = None, ID = 7,
        Data = IfData \<lparr>Then = Some 1, Else = None, ConditionExpression = Some 5,
                       IfNode.IsWeaved = False\<rparr>\<rparr>]"
  have "reachable ?h' 2 2" by (rule reachable.root) simp
  then have r2: "reachable ?h' 2 1" by (rule reachable.link) simp_all
  have "reachable ?h' 0 0" by (rule reachable.root) simp
  then have r0: "reachable ?h' 0 1" by (rule reachable.link) simp_all
  from r2 r0 show ?thesis
    by (simp add: Clone_def lookup_def copy_new_def getKind_def)
qed

text \<open>
  Claim C5. Two nodes that differ only in ID and name compare equal, in either
  order and for every fuel of at least the height of the tree below them, and
  replacing the IDs and names of all nodes of the heap changes no result of
  \<open>isEqual\<close>. On two valid nodes \<open>isEqual\<close> is false when the kinds differ,
  false when the kinds agree and an attribute field (label sets, dispatcher kind,
  loop type, weaved flag, state value) differs, and otherwise the comparison of the
  children in order; so it is false when the kinds agree and the children do not
  all compare equal pairwise. Members outside that list are not compared: two
  \<open>BreakNode\<close>s, two \<open>ContinueNode\<close>s and two \<open>SwitchBreakNode\<close>s are always
  equal. On trees of valid pointers within the fuel it always returns.
\<close>

theorem isEqual_structural:
  "(wellFormed d h (Some a) \<and> c < length h \<and> h ! c = (h ! a)\<lparr>ID := i, Name := nm\<rparr> \<longrightarrow>
      (\<forall>fuel \<ge> d. isEqual fuel h c (Some a) = Some True
                   \<and> isEqual fuel h a (Some c) = Some True))
   \<and> isEqual d (relabel f g h) a q = isEqual d h a q
   \<and> (a < length h \<and> b < length h \<longrightarrow>
        isEqual (Suc d) h a (Some b) =
          (if getKind (h ! a) \<noteq> getKind (h ! b) then Some False
           else if attributeFields (Data (h ! a)) \<noteq> attributeFields (Data (h ! b))
           then Some False
           else childrenAreEqual (isEqual d h) (childPointers (Data (h ! a)))
                  (childPointers (Data (h ! b)))))
   \<and> (a < length h \<and> b < length h \<and> getKind (h ! a) = getKind (h ! b)
        \<and> attributeFields (Data (h ! a)) \<noteq> attributeFields (Data (h ! b)) \<longrightarrow>
        isEqual (Suc d) h a (Some b) = Some False)
   \<and> (wellFormed (Suc d) h (Some a) \<and> wellFormed (Suc d) h (Some b)
        \<and> getKind (h ! a) = getKind (h ! b)
        \<and> \<not> list_all2 (\<lambda>p q. childIsEqual (isEqual d h) p q = Some True)
              (childPointers (Data (h ! a))) (childPointers (Data (h ! b))) \<longrightarrow>
        isEqual (Suc d) h a (Some b) = Some False)
   \<and> (a < length h \<and> b < length h \<and> getKind (h ! a) = getKind (h ! b)
        \<and> (getKind (h ! a) = NK_Break \<or> getKind (h ! a) = NK_Continue
             \<or> getKind (h ! a) = NK_SwitchBreak) \<longrightarrow>
        isEqual (Suc d) h a (Some b) = Some True)
   \<and> (wellFormed d h (Some a) \<and> wellFormed d h q \<longrightarrow>
        (\<forall>fuel \<ge> d. \<exists>r. isEqual fuel h a q = Some r))"
proof (intro conjI impI allI)
  assume p: "wellFormed d h (Some a) \<and> c < length h \<and> h ! c = (h ! a)\<lparr>ID := i, Name := nm\<rparr>"
  then have wf: "wellFormed d h (Some a)" and c: "c < length h"
    and data: "Data (h ! c) = Data (h ! a)" by simp_all
  from wf have a: "a < length h" by (cases d) simp_all
  fix fuel assume "d \<le> fuel"
  from wellFormed_mono[OF wf this] have wf': "wellFormed fuel h (Some a)" .
  from isEqual_same_Data[OF wf' c data] show "isEqual fuel h c (Some a) = Some True" .
  from isEqual_same_Data[OF wellFormed_same_Data[OF wf' c data] a data[symmetric]]
  show "isEqual fuel h a (Some c) = Some True" .
next
  show "isEqual d (relabel f g h) a q = isEqual d h a q" by (rule isEqual_relabel)
next
  assume "a < length h \<and> b < length h"
  then show "isEqual (Suc d) h a (Some b) =
          (if getKind (h ! a) \<noteq> getKind (h ! b) then Some False
           else if attributeFields (Data (h ! a)) \<noteq> attributeFields (Data (h ! b))
           then Some False
           else childrenAreEqual (isEqual d h) (childPointers (Data (h ! a)))
                  (childPointers (Data (h ! b))))"
    using isEqual_unfold[of a h b d] by blast
next
  assume "a < length h \<and> b < length h \<and> getKind (h ! a) = getKind (h ! b)
        \<and> attributeFields (Data (h ! a)) \<noteq> attributeFields (Data (h ! b))"
  then show "isEqual (Suc d) h a (Some b) = Some False"
    using isEqual_unfold[of a h b d] by simp
next
  assume p: "wellFormed (Suc d) h (Some a) \<and> wellFormed (Suc d) h (Some b)
        \<and> getKind (h ! a) = getKind (h ! b)
        \<and> \<not> list_all2 (\<lambda>p q. childIsEqual (isEqual d h) p q = Some True)
              (childPointers (Data (h ! a))) (childPointers (Data (h ! b)))"
  then have wf: "wellFormed (Suc d) h (Some a)" "wellFormed (Suc d) h (Some b)" by simp_all
  then have ab: "a < length h" "b < length h" by simp_all
  from isEqual_total[OF wf] obtain r where r: "isEqual (Suc d) h a (Some b) = Some r" by blast
  have "isEqual (Suc d) h a (Some b) \<noteq> Some True"
    using p childrenAreEqual_True[of "isEqual d h" "childPointers (Data (h ! a))"
        "childPointers (Data (h ! b))"]
    unfolding isEqual_unfold[OF ab] by (simp split: if_splits)
  with r show "isEqual (Suc d) h a (Some b) = Some False" by (cases r) simp_all
next
  assume p: "a < length h \<and> b < length h \<and> getKind (h ! a) = getKind (h ! b)
        \<and> (getKind (h ! a) = NK_Break \<or> getKind (h ! a) = NK_Continue
             \<or> getKind (h ! a) = NK_SwitchBreak)"
  then have ab: "a < length h" "b < length h" by simp_all
  from p show "isEqual (Suc d) h a (Some b) = Some True"
    unfolding isEqual_unfold[OF ab]
    by (cases "Data (h ! a)"; cases "Data (h ! b)") (simp_all add: getKind_def)
next
  fix fuel
  assume "wellFormed d h (Some a) \<and> wellFormed d h q" and "d \<le> fuel"
  then have "wellFormed fuel h (Some a)" "wellFormed fuel h q"
    using wellFormed_mono by blast+
  then show "\<exists>r. isEqual fuel h a q = Some r" by (rule isEqual_total)
qed

theorem isEqual_structural_witness:
  "isEqual (Suc (Suc 0))
     [\<lparr>BB = Some 20, Name = ''x'', Successor = None, ID = 1,
        Data = IfData \<lparr>Then = Some 2, Else = None, ConditionExpression = Some 5,
                       IfNode.IsWeaved = False\<rparr>\<rparr>,
      \<lparr>BB = Some 20, Name = ''y'', Successor = None, ID = 9,
        Data = IfData \<lparr>Then = Some 2, Else = None, ConditionExpression = Some 5,
                       IfNode.IsWeaved = False\<rparr>\<rparr>,
      \<lparr>BB = Some 21, Name = ''then'', Successor = None, ID = 8,
        Data = CodeData \<lparr>ImplicitReturn = False\<rparr>\<rparr>,
      \<lparr>BB = Some 20, Name = ''x'', Successor = None, ID = 1,
        Data = IfData \<lparr>Then = Some 2, Else = None, ConditionExpression = Some 5,
                       IfNode.IsWeaved = True\<rparr>\<rparr>,
      \<lparr>BB = Some 20, Name = ''x'', Successor = None, ID = 1,
        Data = IfData \<lparr>Then = None, Else = None, ConditionExpression = Some 5,
                       IfNode.IsWeaved = False\<rparr>\<rparr>] 1 (Some 0) = Some True
   \<and> isEqual (Suc (Suc 0))
     [\<lparr>BB = Some 20, Name = ''x'', Successor = None, ID = 1,
        Data = IfData \<lparr>Then = Some 2, Else = None, ConditionExpression = Some 5,
                       IfNode.IsWeaved = False\<rparr>\<rparr>,
      \<lparr>BB = Some 20, Name = ''y'', Successor = None, ID = 9,
        Data = IfData \<lparr>Then = Some 2, Else = None, ConditionExpression = Some 5,
                       IfNode.IsWeaved = False\<rparr>\<rparr>,
      \<lparr>BB = Some 21, Name = ''then'', Successor = None, ID = 8,
        Data = CodeData \<lparr>ImplicitReturn = False\<rparr>\<rparr>,
      \<lparr>BB = Some 20, Name = ''x'', Successor = None, ID = 1,
        Data = IfData \<lparr>Then = Some 2, Else = None, ConditionExpression = Some 5,
                       IfNode.IsWeaved = True\<rparr>\<rparr>,
      \<lparr>BB = Some 20, Name = ''x'', Successor = None, ID = 1,
        Data = IfData \<lparr>Then = None, Else = None, ConditionExpression = Some 5,
                       IfNode.IsWeaved = False\<rparr>\<rparr>] 0 (Some 3) = Some False
   \<and> isEqual (Suc (Suc 0))
     [\<lparr>BB = Some 20, Name = ''x'', Successor = None, ID = 1,
        Data = IfData \<lparr>Then = Some 2, Else = None, ConditionExpression = Some 5,
                       IfNode.IsWeaved = False\<rparr>\<rparr>,
      \<lparr>BB = Some 20, Name = ''y'', Successor = None, ID = 9,
        Data = IfData \<lparr>Then = Some 2, Else = None, ConditionExpression = Some 5,
                       IfNode.IsWeaved = False\<rparr>\<rparr>,
      \<lparr>BB = Some 21, Name = ''then'', Successor = None, ID = 8,
        Data = CodeData \<lparr>ImplicitReturn = False\<rparr>\<rparr>,
      \<lparr>BB = Some 20, Name = ''x'', Successor = None, ID = 1,
        Data = IfData \<lparr>Then = Some 2, Else = None, ConditionExpression = Some 5,
                       IfNode.IsWeaved = True\<rparr>\<rparr>,
      \<lparr>BB = Some 20, Name = ''x'', Successor = None, ID = 1,
        Data = IfData \<lparr>Then = None, Else = None, ConditionExpression = Some 5,
                       IfNode.IsWeaved = False\<rparr>\<rparr>] 0 (Some 4) = Some False"
proof -
  let ?h = "[\<lparr>BB = Some 20, Name = ''x'', Successor = None, ID = 1,
        Data = IfData \<lparr>Then = Some 2, Else = None, ConditionExpression = Some 5,
                       IfNode.IsWeaved = False\<rparr>\<rparr>,
      \<lparr>BB = Some 20, Name = ''y'', Successor = None, ID = 9,
        Data = IfData \<lparr>Then = Some 2, Else = None, ConditionExpression = Some 5,
                       IfNode.IsWeaved = False\<rparr>\<rparr>,
      \<lparr>BB = Some 21, Name = ''then'', Successor = None, ID = 8,
        Data = CodeData \<lparr>ImplicitReturn = False\<rparr>\<rparr>,
      \<lparr>BB = Some 20, Name = ''x'', Successor = None, ID = 1,
        Data = IfData \<lparr>Then = Some 2, Else = None, ConditionExpression = Some 5,
                       IfNode.IsWeaved = True\<rparr>\<rparr>,
      \<lparr>BB = Some 20, Name = ''x'', Successor = None, ID = 1,
        Data = IfData \<lparr>Then = None, Else = None, ConditionExpression = Some 5,
                       IfNode.IsWeaved = False\<rparr>\<rparr>]"
  have wf: "wellFormed (Suc (Suc 0)) ?h (Some 0)" by simp
  have c: "1 < length ?h" by simp
  have e: "?h ! 1 = (?h ! 0)\<lparr>ID := 9, Name := ''y''\<rparr>" by simp
  have k: "getKind (?h ! 0) = getKind (?h ! 3)" by (simp add: getKind_def)
  have at: "attributeFields (Data (?h ! 0)) \<noteq> attributeFields (Data (?h ! 3))" by simp
  have wf4: "wellFormed (Suc (Suc 0)) ?h (Some 4)" by simp
  have k4: "getKind (?h ! 0) = getKind (?h ! 4)" by (simp add: getKind_def)
  have ch: "\<not> list_all2 (\<lambda>p q. childIsEqual (isEqual (Suc 0) ?h) p q = Some True)
              (childPointers (Data (?h ! 0))) (childPointers (Data (?h ! 4)))"
    by (simp add: childIsEqual_def CodeNode_nodeIsEqual_def dyn_cast_or_null_def)
  from isEqual_structural [where d = "Suc (Suc 0)" and h = ?h and a = 0 and c = 1 and i = 9
      and nm = "''y''"] wf c e
  have 1: "isEqual (Suc (Suc 0)) ?h 1 (Some 0) = Some True" by blast
  from isEqual_structural [where d = "Suc 0" and h = ?h and a = 0 and b = 3] k at
  have 2: "isEqual (Suc (Suc 0)) ?h 0 (Some 3) = Some False" by simp
  from isEqual_structural [where d = "Suc 0" and h = ?h and a = 0 and b = 4] wf wf4 k4 ch
  have 3: "isEqual (Suc (Suc 0)) ?h 0 (Some 4) = Some False" by blast
  from 1 2 3 show ?thesis by blast
qed

end
